theory Spec2Isabelle
  imports Main "HOL-Library.Sublist" "HOL-Library.Char_ord" "HOL-Library.List_Lexorder"
    "HOL-Library.Product_Lexorder"
begin

section \<open>Python strings and integers\<close>

text \<open>
  A Python \<open>str\<close> is modelled as a \<open>string\<close>, one \<open>char\<close> per code point (code points
  0 to 255); Python's unbounded \<open>int\<close> is \<open>int\<close>. \<open>str(n)\<close> on an integer is the decimal
  rendering, with a leading minus sign for a negative number.
\<close>

definition digit_char :: "nat \<Rightarrow> char" where
  "digit_char d = char_of (48 + d)"

fun str_nat :: "nat \<Rightarrow> string" where
  "str_nat n = (if n < 10 then [digit_char n] else str_nat (n div 10) @ [digit_char (n mod 10)])"

declare str_nat.simps [simp del]

definition str_int :: "int \<Rightarrow> string" where
  "str_int i = (if i < 0 then CHR ''-'' # str_nat (nat (- i)) else str_nat (nat i))"

text \<open>\<open>sep.join(xs)\<close>\<close>

fun join :: "string \<Rightarrow> string list \<Rightarrow> string" where
  "join sep [] = []"
| "join sep [x] = x"
| "join sep (x # y # ys) = x @ sep @ join sep (y # ys)"

text \<open>
  \<open>str.isspace\<close> on the code points below 256: the characters \<open>s.strip()\<close> removes from
  both ends.
\<close>

definition py_isspace :: "char \<Rightarrow> bool" where
  "py_isspace c = (let n = (of_char c :: nat) in
     (9 \<le> n \<and> n \<le> 13) \<or> (28 \<le> n \<and> n \<le> 32) \<or> n = 133 \<or> n = 160)"

definition strip :: "string \<Rightarrow> string" where
  "strip s = rev (dropWhile py_isspace (rev (dropWhile py_isspace s)))"

section \<open>The file-name sanitizer\<close>

text \<open>The character class \<open>[a-zA-Z0-9._-]\<close> of \<open>safe_filename\<close>.\<close>

definition safe_char :: "char \<Rightarrow> bool" where
  "safe_char c = (let n = (of_char c :: nat) in
     (97 \<le> n \<and> n \<le> 122) \<or> (65 \<le> n \<and> n \<le> 90) \<or> (48 \<le> n \<and> n \<le> 57)
     \<or> c = CHR ''.'' \<or> c = CHR ''_'' \<or> c = CHR ''-'')"

text \<open>
  \<open>re.sub(r"[^a-zA-Z0-9._-]+", "_", s)\<close>: every maximal run of characters outside the
  class becomes one underscore.
\<close>

function sub_unsafe :: "string \<Rightarrow> string" where
  "sub_unsafe [] = []"
| "sub_unsafe (c # cs) =
     (if safe_char c then c # sub_unsafe cs
      else CHR ''_'' # sub_unsafe (dropWhile (\<lambda>x. \<not> safe_char x) cs))"
  by pat_completeness auto
termination
proof (relation "measure length")
  fix c :: char and cs :: string
  have "length (dropWhile (\<lambda>x. \<not> safe_char x) cs) \<le> length cs"
    by (rule length_dropWhile_le)
  then show "(dropWhile (\<lambda>x. \<not> safe_char x) cs, c # cs) \<in> measure length"
    by simp
qed simp_all

definition safe_filename :: "string \<Rightarrow> string" where
  "safe_filename s =
     (let s = sub_unsafe (strip s)
      in if length s > 180 then take 180 s else s)"

section \<open>Query specifications and the URL builder\<close>

record QuerySpec =
  type :: string
  view :: "string option"
  cls :: "int option"
  extra_params :: "(string \<times> string) list option"

text \<open>
  \<open>extra_params\<close> is a Python dict: its items in insertion order, as an association
  list. \<open>BASE.format(player_id=player_id)\<close> puts the decimal rendering of the identifier
  into the fixed path.
\<close>

definition BASE :: "int \<Rightarrow> string" where
  "BASE player_id =
     ''https://stats.espncricinfo.com/ci/engine/player/'' @ str_int player_id @ ''.html''"

text \<open>The f-string \<open>f"{k}={v}"\<close> of one parameter.\<close>

definition fmt_param :: "string \<times> string \<Rightarrow> string" where
  "fmt_param p = fst p @ ''='' @ snd p"

text \<open>
  The list \<open>params\<close> is built by successive appends; \<open>if spec.view:\<close> and
  \<open>if spec.extra_params:\<close> test truthiness, so an empty string and an empty dict
  are skipped like \<open>None\<close>, whereas \<open>cls\<close> is tested with \<open>is not None\<close>.
\<close>

definition make_url :: "int \<Rightarrow> QuerySpec \<Rightarrow> string" where
  "make_url player_id spec =
     (let params = [];
          params = (case cls spec of
                      Some c \<Rightarrow> params @ [(''class'', str_int c)]
                    | None \<Rightarrow> params);
          params = params @ [(''template'', ''results'')];
          params = params @ [(''type'', type spec)];
          params = (case view spec of
                      Some v \<Rightarrow> if v \<noteq> [] then params @ [(''view'', v)] else params
                    | None \<Rightarrow> params);
          params = (case extra_params spec of
                      Some d \<Rightarrow> if d \<noteq> [] then params @ d else params
                    | None \<Rightarrow> params);
          qp = join '';'' (map fmt_param params)
      in BASE player_id @ ''?'' @ qp)"

text \<open>
  The page key of the orchestrator,
  \<open>f"type={spec.type}__view={spec.view or 'none'}__class={spec.cls or 'none'}"\<close>:
  \<open>or\<close> replaces every falsy value, so \<open>None\<close>, the empty view and class 0 all
  give \<open>none\<close>.
\<close>

definition page_key :: "QuerySpec \<Rightarrow> string" where
  "page_key spec =
     ''type='' @ type spec
     @ ''__view='' @ (case view spec of
                        Some v \<Rightarrow> if v \<noteq> [] then v else ''none''
                      | None \<Rightarrow> ''none'')
     @ ''__class='' @ (case cls spec of
                         Some c \<Rightarrow> if c \<noteq> 0 then str_int c else ''none''
                       | None \<Rightarrow> ''none'')"

text \<open>
  The parameters in the order the specification gives them: the format class if it is
  set, the fixed template marker, the category, the sub-view if it is a non-empty
  string, and the extra parameters in insertion order.
\<close>

definition spec_params :: "QuerySpec \<Rightarrow> (string \<times> string) list" where
  "spec_params spec =
     (case cls spec of Some c \<Rightarrow> [(''class'', str_int c)] | None \<Rightarrow> [])
     @ [(''template'', ''results''), (''type'', type spec)]
     @ (case view spec of Some v \<Rightarrow> if v = [] then [] else [(''view'', v)] | None \<Rightarrow> [])
     @ (case extra_params spec of Some d \<Rightarrow> d | None \<Rightarrow> [])"

text \<open>Reading a URL back: the query string after the first \<open>?\<close>, and its first parameter.\<close>

definition query_string :: "string \<Rightarrow> string" where
  "query_string url = tl (dropWhile (\<lambda>c. c \<noteq> CHR ''?'') url)"

definition first_param :: "string \<Rightarrow> string" where
  "first_param q = takeWhile (\<lambda>c. c \<noteq> CHR '';'') q"

section \<open>The query enumerator\<close>

text \<open>
  The de-duplication key \<open>(sp.type, sp.view, sp.cls, tuple(sorted((sp.extra_params or {}).items())))\<close>;
  Python orders strings by code point and tuples lexicographically.
\<close>

type_synonym spec_key_t = "string \<times> string option \<times> int option \<times> (string \<times> string) list"

definition spec_key :: "QuerySpec \<Rightarrow> spec_key_t" where
  "spec_key sp =
     (type sp, view sp, cls sp,
      sort (case extra_params sp of Some d \<Rightarrow> d | None \<Rightarrow> []))"

text \<open>The loop over \<open>specs\<close> with the set \<open>seen\<close> and the list \<open>uniq\<close>.\<close>

fun dedup_loop :: "QuerySpec list \<Rightarrow> spec_key_t set \<Rightarrow> QuerySpec list \<Rightarrow> QuerySpec list" where
  "dedup_loop [] seen uniq = uniq"
| "dedup_loop (sp # sps) seen uniq =
     (let key = spec_key sp
      in if key \<notin> seen then dedup_loop sps (insert key seen) (uniq @ [sp])
         else dedup_loop sps seen uniq)"

definition classes_to_try :: "int list" where
  "classes_to_try = [1, 2, 3, 4, 5, 6]"

definition extra_views :: "string list" where
  "extra_views = [''career'', ''match'', ''series'']"

text \<open>\<open>QuerySpec(type=t, cls=c, view=v)\<close>: \<open>extra_params\<close> keeps its default \<open>None\<close>.\<close>

definition mk_spec :: "string \<Rightarrow> int \<Rightarrow> string \<Rightarrow> QuerySpec" where
  "mk_spec t c v = \<lparr>type = t, view = Some v, cls = Some c, extra_params = None\<rparr>"

text \<open>The list \<open>specs\<close> as the two nested loops leave it, before de-duplication.\<close>

definition candidate_specs :: "QuerySpec list" where
  "candidate_specs =
     concat (map (\<lambda>c.
        [mk_spec ''batting'' c ''innings'',
         mk_spec ''batting'' c ''results'',
         mk_spec ''bowling'' c ''innings'',
         mk_spec ''bowling'' c ''results'',
         mk_spec ''fielding'' c ''results'',
         mk_spec ''fielding'' c ''dismissal_summary'']) classes_to_try)
     @ concat (map (\<lambda>c. concat (map (\<lambda>v.
        [mk_spec ''batting'' c v,
         mk_spec ''bowling'' c v,
         mk_spec ''fielding'' c v]) extra_views)) classes_to_try)"

definition build_default_specs :: "QuerySpec list" where
  "build_default_specs = dedup_loop candidate_specs {} []"

section \<open>Tables\<close>

text \<open>
  A pandas \<open>DataFrame\<close>: the column labels and the rows of cells; \<open>df.shape\<close> is
  \<open>(length (data df), length (columns df))\<close>. A cell is missing (\<open>NA\<close>), a string or
  a number; no operation of the program looks at a cell beyond asking whether it is
  missing. A label is a string (a header cell) or a position (a table without header).
  A frame is rectangular: \<open>wf_df\<close>.
\<close>

datatype cell = NA | VStr string | VInt int

datatype label = LStr string | LInt int

record DataFrame =
  columns :: "label list"
  data :: "cell list list"

definition wf_df :: "DataFrame \<Rightarrow> bool" where
  "wf_df df = list_all (\<lambda>r. length r = length (columns df)) (data df)"

text \<open>Python exceptions, with \<open>str(e)\<close>.\<close>

datatype exn = RuntimeError string | ValueError string | OtherError string

fun str_exn :: "exn \<Rightarrow> string" where
  "str_exn (RuntimeError m) = m"
| "str_exn (ValueError m) = m"
| "str_exn (OtherError m) = m"

text \<open>Keeping the entries of a list that a mask of booleans selects.\<close>

definition select :: "bool list \<Rightarrow> 'a list \<Rightarrow> 'a list" where
  "select keep xs = map snd (filter fst (zip keep xs))"

text \<open>\<open>df.dropna(axis=1, how="all")\<close>: a column stays when some row has a value in it.\<close>

definition dropna_cols :: "DataFrame \<Rightarrow> DataFrame" where
  "dropna_cols df =
     (let keep = map (\<lambda>j. list_ex (\<lambda>r. r ! j \<noteq> NA) (data df)) [0..<length (columns df)]
      in \<lparr>columns = select keep (columns df), data = map (select keep) (data df)\<rparr>)"

text \<open>\<open>df.dropna(axis=0, how="all")\<close>: a row stays when it has a value in some column.\<close>

definition dropna_rows :: "DataFrame \<Rightarrow> DataFrame" where
  "dropna_rows df = df\<lparr>data := filter (list_ex (\<lambda>x. x \<noteq> NA)) (data df)\<rparr>"

section \<open>The world outside the program\<close>

text \<open>
  What the program observes of its libraries is a parameter of the model, and what it
  does to the world is a list of events. \<open>session_get\<close> is \<open>requests.Session.get\<close>: given
  the events so far and a URL, a response, or the exception of a request that failed
  before any response arrived. \<open>soup_title\<close> is the text of the \<open>title\<close> element that
  BeautifulSoup finds, if there is one. \<open>html_tables\<close> is the HTML parser behind
  \<open>pandas.read_html\<close>: the tables it finds in a page, or the exception of a parse that
  fails. \<open>csv_error\<close> is the exception, if any, of writing the CSV file at a path;
  \<open>excel_error\<close> is the exception, if any, with which the spreadsheet library refuses to
  write a table under a sheet name, and \<open>xlsx_error\<close> the exception, if any, of saving
  the workbook at a path. The delay of \<open>time.sleep\<close> is a float that the program only
  passes on: a value of an arbitrary type \<open>'d\<close>.
\<close>

text \<open>A response: \<open>r.status_code\<close> and \<open>r.text\<close>.\<close>

record response =
  status_code :: int
  resp_text :: string

datatype 'd event = Get string | Sleep 'd

record 'd env =
  session_get :: "'d event list \<Rightarrow> string \<Rightarrow> exn + response"
  soup_title :: "string \<Rightarrow> string option"
  html_tables :: "string \<Rightarrow> exn + DataFrame list"
  csv_error :: "string \<Rightarrow> exn option"
  excel_error :: "string \<Rightarrow> DataFrame \<Rightarrow> exn option"
  xlsx_error :: "string \<Rightarrow> exn option"

text \<open>
  \<open>pandas.read_html\<close> never returns an empty list: when the parser finds no table in the
  page it raises \<open>ValueError("No tables found")\<close>.
\<close>

definition pd_read_html :: "'d env \<Rightarrow> string \<Rightarrow> exn + DataFrame list" where
  "pd_read_html env html =
     (case html_tables env html of
        Inl e \<Rightarrow> Inl e
      | Inr dfs \<Rightarrow> if dfs = [] then Inl (ValueError ''No tables found'') else Inr dfs)"

section \<open>The page fetcher\<close>

text \<open>
  \<open>session.get\<close> comes first: when it raises, the exception leaves \<open>fetch_html\<close> at once
  and \<open>time.sleep\<close> is not reached. After a response the function sleeps, and only then
  looks at the status.
\<close>

definition fetch_html ::
  "'d env \<Rightarrow> string \<Rightarrow> 'd \<Rightarrow> 'd event list \<Rightarrow> (exn + string) \<times> 'd event list" where
  "fetch_html env url sleep_s evs =
     (case session_get env evs url of
        Inl e \<Rightarrow> (Inl e, evs @ [Get url])
      | Inr r \<Rightarrow>
          (let evs = evs @ [Get url, Sleep sleep_s]
           in if status_code r \<noteq> 200
              then (Inl (RuntimeError (''HTTP '' @ str_int (status_code r) @ '' for '' @ url
                          @ [CHR 0x0A] @ ''First 300 chars:'' @ [CHR 0x0A] @ take 300 (resp_text r))),
                    evs)
              else (Inr (resp_text r), evs)))"

definition extract_page_title :: "'d env \<Rightarrow> string \<Rightarrow> string" where
  "extract_page_title env html =
     (case soup_title env html of Some t \<Rightarrow> t | None \<Rightarrow> ''cricinfo_page'')"

section \<open>The table extractor\<close>

definition ascii_lower :: "char \<Rightarrow> char" where
  "ascii_lower c =
     (let n = (of_char c :: nat) in if 65 \<le> n \<and> n \<le> 90 then char_of (n + 32) else c)"

text \<open>
  The pattern \<open><!DOCTYPE[^>]*>\<close> matches at a position when the nine characters there
  are \<open><!doctype\<close> in any case and a closing bracket follows somewhere; the match ends
  at the first such bracket.
\<close>

definition doctype_here :: "string \<Rightarrow> bool" where
  "doctype_here s =
     (map ascii_lower (take 9 s) = ''<!doctype'' \<and> CHR ''>'' \<in> set (drop 9 s))"

text \<open>\<open>re.sub(..., "", html, count=1, flags=re.IGNORECASE | re.DOTALL)\<close>: the leftmost match goes.\<close>

fun strip_doctype :: "string \<Rightarrow> string" where
  "strip_doctype [] = []"
| "strip_doctype (c # cs) =
     (if doctype_here (c # cs) then tl (dropWhile (\<lambda>x. x \<noteq> CHR ''>'') (drop 9 (c # cs)))
      else c # strip_doctype cs)"

text \<open>The loop over \<open>dfs\<close> with the list \<open>cleaned\<close>.\<close>

fun clean_loop :: "DataFrame list \<Rightarrow> DataFrame list \<Rightarrow> DataFrame list" where
  "clean_loop [] cleaned = cleaned"
| "clean_loop (df # dfs) cleaned =
     (let df = dropna_cols df;
          df = dropna_rows df
      in if length (data df) = 0 \<or> length (columns df) = 0 then clean_loop dfs cleaned
         else clean_loop dfs (cleaned @ [df]))"

text \<open>
  The call \<open>pd.read_html(html)\<close> stands outside any \<open>try\<close>: what it raises, the
  extractor raises.
\<close>

definition read_tables_from_html :: "'d env \<Rightarrow> string \<Rightarrow> exn + DataFrame list" where
  "read_tables_from_html env html =
     (let html = strip_doctype html
      in case pd_read_html env html of
           Inl e \<Rightarrow> Inl e
         | Inr dfs \<Rightarrow> Inr (clean_loop dfs []))"

section \<open>The table normalizer\<close>

text \<open>
  \<open>df.insert(0, k, v)\<close> puts a new first column holding \<open>v\<close> in every row; pandas
  raises \<open>ValueError\<close> when the frame already has a column labelled \<open>k\<close>.
\<close>

fun str_label :: "label \<Rightarrow> string" where
  "str_label (LStr s) = s"
| "str_label (LInt i) = str_int i"

definition df_insert0 :: "label \<Rightarrow> cell \<Rightarrow> DataFrame \<Rightarrow> exn + DataFrame" where
  "df_insert0 k v df =
     (if k \<in> set (columns df)
      then Inl (ValueError (''cannot insert '' @ str_label k @ '', already exists''))
      else Inr \<lparr>columns = k # columns df, data = map (\<lambda>r. v # r) (data df)\<rparr>)"

text \<open>The inner loop \<open>for k, v in meta.items()\<close>; the dict \<open>meta\<close> as its items in order.\<close>

fun insert_meta :: "(string \<times> string) list \<Rightarrow> DataFrame \<Rightarrow> exn + DataFrame" where
  "insert_meta [] df2 = Inr df2"
| "insert_meta ((k, v) # meta) df2 =
     (case df_insert0 (LStr k) (VStr v) df2 of
        Inl e \<Rightarrow> Inl e
      | Inr df2 \<Rightarrow> insert_meta meta df2)"

text \<open>The loop \<open>for i, df in enumerate(dfs, start=1)\<close> with the list \<open>out\<close>.\<close>

fun normalize_loop ::
  "nat \<Rightarrow> DataFrame list \<Rightarrow> (string \<times> string) list \<Rightarrow> DataFrame list \<Rightarrow> exn + DataFrame list" where
  "normalize_loop i [] meta out = Inr out"
| "normalize_loop i (df # dfs) meta out =
     (case insert_meta meta df of
        Inl e \<Rightarrow> Inl e
      | Inr df2 \<Rightarrow>
          (case df_insert0 (LStr ''_table_index'') (VInt (int i)) df2 of
             Inl e \<Rightarrow> Inl e
           | Inr df2 \<Rightarrow> normalize_loop (Suc i) dfs meta (out @ [df2])))"

definition normalize_tables ::
  "DataFrame list \<Rightarrow> (string \<times> string) list \<Rightarrow> exn + DataFrame list" where
  "normalize_tables dfs meta = normalize_loop 1 dfs meta []"

section \<open>The per-page exporter\<close>

text \<open>\<open>os.path.join\<close> of two components, on a POSIX system.\<close>

definition path_join :: "string \<Rightarrow> string \<Rightarrow> string" where
  "path_join a b =
     (if b \<noteq> [] \<and> hd b = CHR ''/'' then b
      else if a = [] \<or> last a = CHR ''/'' then a @ b
      else a @ ''/'' @ b)"

text \<open>The name \<open>safe_filename(f"{base_name}__table{i}.csv")\<close> of the file of table \<open>i\<close>.\<close>

definition csv_name :: "string \<Rightarrow> nat \<Rightarrow> string" where
  "csv_name base_name i = safe_filename (base_name @ ''__table'' @ str_nat i @ ''.csv'')"

text \<open>
  The loop of \<open>save_tables\<close>: the files written so far as pairs of path and table, and
  the list \<open>saved\<close>. The output directory exists already (the orchestrator made it).
\<close>

fun save_loop ::
  "'d env \<Rightarrow> nat \<Rightarrow> DataFrame list \<Rightarrow> string \<Rightarrow> string \<Rightarrow> (string \<times> DataFrame) list
     \<Rightarrow> string list \<Rightarrow> (exn + string list) \<times> (string \<times> DataFrame) list" where
  "save_loop env i [] out_dir base_name fs saved = (Inr saved, fs)"
| "save_loop env i (df # tables) out_dir base_name fs saved =
     (let fn = csv_name base_name i;
          path = path_join out_dir fn
      in case csv_error env path of
           Some e \<Rightarrow> (Inl e, fs)
         | None \<Rightarrow> save_loop env (Suc i) tables out_dir base_name (fs @ [(path, df)]) (saved @ [path]))"

definition save_tables ::
  "'d env \<Rightarrow> DataFrame list \<Rightarrow> string \<Rightarrow> string \<Rightarrow> (string \<times> DataFrame) list
     \<Rightarrow> (exn + string list) \<times> (string \<times> DataFrame) list" where
  "save_tables env tables out_dir base_name fs = save_loop env 1 tables out_dir base_name fs []"

section \<open>The workbook aggregator\<close>

text \<open>
  The sheet name of table \<open>i\<close> of a key that has \<open>n\<close> tables: the sanitized key is cut to
  25 characters first, whatever \<open>n\<close> is; the slice \<open>[:31]\<close> comes last.
\<close>

definition sheet_name :: "string \<Rightarrow> nat \<Rightarrow> nat \<Rightarrow> string" where
  "sheet_name key n i =
     (let sheet = take 25 (safe_filename key);
          sheet = (if n > 1 then sheet @ ''_'' @ str_nat i else sheet)
      in take 31 sheet)"

text \<open>
  \<open>df.to_excel(writer, sheet_name=sheet, index=False)\<close>. The writer is modelled by the
  writes it has accepted, in order, each with the sheet name asked for and the table.
  It is not the list of the sheets of the file: the library keeps one sheet per name
  and lays a table over what a sheet of the same name already holds. The library
  raises \<open>ValueError\<close> on an empty sheet name (the text of its message is not modelled)
  and may refuse a write for reasons of its own (\<open>excel_error\<close>); an exception leaves
  \<open>write_excel_book\<close> at once.
\<close>

definition to_excel ::
  "'d env \<Rightarrow> DataFrame \<Rightarrow> string \<Rightarrow> (string \<times> DataFrame) list
     \<Rightarrow> exn + (string \<times> DataFrame) list" where
  "to_excel env df sheet writer =
     (if sheet = [] then Inl (ValueError [])
      else case excel_error env sheet df of
             Some e \<Rightarrow> Inl e
           | None \<Rightarrow> Inr (writer @ [(sheet, df)]))"

text \<open>The inner loop \<open>for i, df in enumerate(dfs, start=1)\<close>, where \<open>n\<close> is \<open>len(dfs)\<close>.\<close>

fun excel_inner ::
  "'d env \<Rightarrow> string \<Rightarrow> nat \<Rightarrow> nat \<Rightarrow> DataFrame list \<Rightarrow> (string \<times> DataFrame) list
     \<Rightarrow> exn + (string \<times> DataFrame) list" where
  "excel_inner env key n i [] writer = Inr writer"
| "excel_inner env key n i (df # dfs) writer =
     (case to_excel env df (sheet_name key n i) writer of
        Inl e \<Rightarrow> Inl e
      | Inr writer \<Rightarrow> excel_inner env key n (Suc i) dfs writer)"

text \<open>The outer loop \<open>for key, dfs in all_tables.items()\<close>.\<close>

fun excel_outer ::
  "'d env \<Rightarrow> (string \<times> DataFrame list) list \<Rightarrow> (string \<times> DataFrame) list
     \<Rightarrow> exn + (string \<times> DataFrame) list" where
  "excel_outer env [] writer = Inr writer"
| "excel_outer env ((key, dfs) # all_tables) writer =
     (case excel_inner env key (length dfs) 1 dfs writer of
        Inl e \<Rightarrow> Inl e
      | Inr writer \<Rightarrow> excel_outer env all_tables writer)"

text \<open>
  \<open>write_excel_book\<close>: the writes accepted when the \<open>with pd.ExcelWriter(excel_path, ...)\<close>
  block has run to its end and the workbook is saved, or the exception raised.
\<close>

definition write_excel_book ::
  "'d env \<Rightarrow> (string \<times> DataFrame list) list \<Rightarrow> string \<Rightarrow> exn + (string \<times> DataFrame) list" where
  "write_excel_book env all_tables excel_path =
     (case excel_outer env all_tables [] of
        Inl e \<Rightarrow> Inl e
      | Inr writer \<Rightarrow>
          (case xlsx_error env excel_path of
             Some e \<Rightarrow> Inl e
           | None \<Rightarrow> Inr writer))"

text \<open>
  The sheets of the file that the library makes of the accepted writes, each with the
  tables laid into it, oldest first. A write under the title of a sheet of the book
  lays its table over that sheet, which keeps its place. A write under any other name
  makes a new sheet, titled with that name unless the name differs from a title of the
  book only in the case of letters: then the library picks the title, here
  \<open>new_title\<close>. Sheet names of the aggregator are sanitized, so the case of letters is
  that of the ASCII letters.
\<close>

definition lay ::
  "(string list \<Rightarrow> string \<Rightarrow> string) \<Rightarrow> (string \<times> DataFrame list) list
     \<Rightarrow> string \<times> DataFrame \<Rightarrow> (string \<times> DataFrame list) list" where
  "lay new_title book write =
     (let sheet = fst write; df = snd write
      in if sheet \<in> set (map fst book)
         then map (\<lambda>(title, dfs). if title = sheet then (title, dfs @ [df]) else (title, dfs)) book
         else if list_ex (\<lambda>title. map ascii_lower title = map ascii_lower sheet) (map fst book)
         then book @ [(new_title (map fst book) sheet, [df])]
         else book @ [(sheet, [df])])"

definition sheets_of ::
  "(string list \<Rightarrow> string \<Rightarrow> string) \<Rightarrow> (string \<times> DataFrame) list
     \<Rightarrow> (string \<times> DataFrame list) list" where
  "sheets_of new_title writes = foldl (lay new_title) [] writes"

section \<open>The run orchestrator\<close>

text \<open>
  The state of a run: the dict \<open>all_tables\<close> (its items in insertion order), the list
  \<open>failures\<close>, the CSV files written and the events of the fetcher.
\<close>

record 'd run_state =
  all_tables :: "(string \<times> DataFrame list) list"
  failures :: "(string \<times> string) list"
  files :: "(string \<times> DataFrame) list"
  events :: "'d event list"

text \<open>\<open>d[k] = v\<close> on a dict: a known key keeps its place, a new key goes last.\<close>

fun dict_set :: "'k \<Rightarrow> 'v \<Rightarrow> ('k \<times> 'v) list \<Rightarrow> ('k \<times> 'v) list" where
  "dict_set k v [] = [(k, v)]"
| "dict_set k v (p # ps) = (if fst p = k then (k, v) # ps else p # dict_set k v ps)"

text \<open>The dict \<open>meta\<close> of the orchestrator.\<close>

definition page_meta :: "string \<Rightarrow> string \<Rightarrow> QuerySpec \<Rightarrow> (string \<times> string) list" where
  "page_meta url title spec =
     [(''_url'', url),
      (''_title'', title),
      (''_type'', type spec),
      (''_view'', (case view spec of Some v \<Rightarrow> if v \<noteq> [] then v else [] | None \<Rightarrow> [])),
      (''_class'', (case cls spec of Some c \<Rightarrow> str_int c | None \<Rightarrow> []))]"

text \<open>The handler \<open>except Exception as e: failures.append((url, str(e)))\<close>.\<close>

definition record_failure :: "string \<Rightarrow> exn \<Rightarrow> 'd run_state \<Rightarrow> 'd run_state" where
  "record_failure url e st = st\<lparr>failures := failures st @ [(url, str_exn e)]\<rparr>"

text \<open>
  One turn of the loop \<open>for spec in specs\<close>. Every exception raised inside the \<open>try\<close>
  block ends the turn with a failure record; a page without tables ends it with
  \<open>continue\<close> and no record.
\<close>

definition main_step ::
  "'d env \<Rightarrow> int \<Rightarrow> string \<Rightarrow> 'd \<Rightarrow> 'd run_state \<Rightarrow> QuerySpec \<Rightarrow> 'd run_state" where
  "main_step env player_id out_dir sleep_s st spec =
     (let url = make_url player_id spec;
          key = page_key spec;
          (res, evs) = fetch_html env url sleep_s (events st);
          st = st\<lparr>events := evs\<rparr>
      in case res of
           Inl e \<Rightarrow> record_failure url e st
         | Inr html \<Rightarrow>
             (let title = extract_page_title env html
              in case read_tables_from_html env html of
                   Inl e \<Rightarrow> record_failure url e st
                 | Inr dfs \<Rightarrow>
                     if dfs = [] then st
                     else
                       (let meta = page_meta url title spec
                        in case normalize_tables dfs meta of
                             Inl e \<Rightarrow> record_failure url e st
                           | Inr dfs2 \<Rightarrow>
                               (let st = st\<lparr>all_tables := dict_set key dfs2 (all_tables st)\<rparr>;
                                    (saved, fs) = save_tables env dfs2 out_dir key (files st);
                                    st = st\<lparr>files := fs\<rparr>
                                in case saved of
                                     Inl e \<Rightarrow> record_failure url e st
                                   | Inr paths \<Rightarrow> st))))"

fun main_loop ::
  "'d env \<Rightarrow> int \<Rightarrow> string \<Rightarrow> 'd \<Rightarrow> QuerySpec list \<Rightarrow> 'd run_state \<Rightarrow> 'd run_state" where
  "main_loop env player_id out_dir sleep_s [] st = st"
| "main_loop env player_id out_dir sleep_s (spec # specs) st =
     main_loop env player_id out_dir sleep_s specs (main_step env player_id out_dir sleep_s st spec)"

definition init_state :: "'d run_state" where
  "init_state = \<lparr>all_tables = [], failures = [], files = [], events = []\<rparr>"

text \<open>
  \<open>main\<close>: the loop over the enumerated specs, then the workbook when some page gave
  tables. \<open>out_dir\<close> is the absolute path of the output directory. The result is the
  state after the loop and what became of the workbook: nothing to write, the path and
  the writes accepted, or the exception of \<open>write_excel_book\<close>, which no handler catches.
\<close>

definition main ::
  "'d env \<Rightarrow> int \<Rightarrow> string \<Rightarrow> 'd
     \<Rightarrow> 'd run_state \<times> (exn + (string \<times> (string \<times> DataFrame) list) option)" where
  "main env player_id out_dir sleep_s =
     (let specs = build_default_specs;
          st = main_loop env player_id out_dir sleep_s specs init_state
      in if all_tables st \<noteq> []
         then (let excel_path =
                     path_join out_dir (''player_'' @ str_int player_id @ ''_cricinfo_tables.xlsx'')
               in case write_excel_book env (all_tables st) excel_path of
                    Inl e \<Rightarrow> (st, Inl e)
                  | Inr writer \<Rightarrow> (st, Inr (Some (excel_path, writer))))
         else (st, Inr None))"

text \<open>The URLs requested, read off a list of events.\<close>

definition requested :: "'d event list \<Rightarrow> string list" where
  "requested evs = concat (map (\<lambda>ev. case ev of Get url \<Rightarrow> [url] | Sleep d \<Rightarrow> []) evs)"

section \<open>Properties of the sanitizer and of the exporter's file names\<close>

lemma safe_char_underscore: "safe_char CHR ''_''"
  by (simp add: safe_char_def)

lemma safe_char_sub_unsafe: "\<forall>c \<in> set (sub_unsafe s). safe_char c"
proof (induction s rule: sub_unsafe.induct)
  case 1
  show ?case by simp
next
  case (2 d ds)
  show ?case
  proof (cases "safe_char d")
    case True
    with 2(1) have "\<forall>c\<in>set (sub_unsafe ds). safe_char c" by blast
    with True show ?thesis by simp
  next
    case False
    define r where "r = sub_unsafe (dropWhile (\<lambda>x. \<not> safe_char x) ds)"
    from False 2(2) have ih: "\<forall>c\<in>set r. safe_char c"
      unfolding r_def by blast
    from False have eq: "sub_unsafe (d # ds) = CHR ''_'' # r"
      unfolding r_def by simp
    from ih safe_char_underscore show ?thesis
      unfolding eq by simp
  qed
qed

lemma safe_filename_chars: "\<forall>c \<in> set (safe_filename s). safe_char c"
proof -
  have "set (safe_filename s) \<subseteq> set (sub_unsafe (strip s))"
    by (auto simp: safe_filename_def Let_def dest: in_set_takeD)
  with safe_char_sub_unsafe show ?thesis by blast
qed

lemma safe_filename_length: "length (safe_filename s) \<le> 180"
  by (simp add: safe_filename_def Let_def)

text \<open>
  The files of \<open>save_tables\<close>: the tables up to the first write that fails, each under
  the sanitized name of its ordinal, in the output directory.
\<close>

lemma save_loop_files:
  "\<exists>m \<le> length tables.
     snd (save_loop env i tables out_dir base_name fs saved)
       = fs @ map (\<lambda>k. (path_join out_dir (csv_name base_name (i + k)), tables ! k)) [0..<m]"
proof (induction tables arbitrary: i fs saved)
  case Nil
  show ?case by simp
next
  case (Cons df tables)
  let ?path = "path_join out_dir (csv_name base_name i)"
  show ?case
  proof (cases "csv_error env ?path")
    case (Some e)
    then have "snd (save_loop env i (df # tables) out_dir base_name fs saved) = fs"
      by (simp add: Let_def)
    then show ?thesis by (intro exI [of _ 0]) simp
  next
    case None
    from Cons.IH [of "Suc i" "fs @ [(?path, df)]" "saved @ [?path]"]
    obtain m where m: "m \<le> length tables"
      and eq: "snd (save_loop env (Suc i) tables out_dir base_name (fs @ [(?path, df)]) (saved @ [?path]))
        = (fs @ [(?path, df)])
          @ map (\<lambda>k. (path_join out_dir (csv_name base_name (Suc i + k)), tables ! k)) [0..<m]"
      by blast
    have shift: "map (\<lambda>k. (path_join out_dir (csv_name base_name (i + k)), (df # tables) ! k)) [0..<Suc m]
        = (?path, df) # map (\<lambda>k. (path_join out_dir (csv_name base_name (Suc i + k)), tables ! k)) [0..<m]"
      by (simp add: upt_rec [of 0 "Suc m"] map_Suc_upt [symmetric] del: upt_Suc)
    from None eq have "snd (save_loop env i (df # tables) out_dir base_name fs saved)
        = fs @ map (\<lambda>k. (path_join out_dir (csv_name base_name (i + k)), (df # tables) ! k)) [0..<Suc m]"
      unfolding shift by (simp add: Let_def)
    with m show ?thesis
      by (intro exI [of _ "Suc m"]) simp
  qed
qed

text \<open>
  C9. Whatever the input string, the sanitizer returns only characters of
  \<open>[A-Za-z0-9._-]\<close> and at most 180 of them. The exporter sanitizes the whole name
  \<open>{base_name}__table{i}.csv\<close>, so the name of every file it writes has these two
  properties as well, and its length is in particular below 180 plus the length of
  the suffix.
\<close>

theorem safe_filename_sanitized:
  "(\<forall>c \<in> set (safe_filename s). safe_char c)
   \<and> length (safe_filename s) \<le> 180
   \<and> (\<forall>c \<in> set (csv_name base_name i). safe_char c)
   \<and> length (csv_name base_name i) \<le> 180
   \<and> length (csv_name base_name i) \<le> 180 + length (''__table'' @ str_nat i @ ''.csv'')
   \<and> (\<exists>m \<le> length tables.
         snd (save_tables env tables out_dir base_name fs)
           = fs @ map (\<lambda>k. (path_join out_dir (csv_name base_name (Suc k)), tables ! k)) [0..<m])"
proof -
  have len: "length (csv_name base_name i) \<le> 180"
    unfolding csv_name_def by (rule safe_filename_length)
  have files: "\<exists>m \<le> length tables.
         snd (save_tables env tables out_dir base_name fs)
           = fs @ map (\<lambda>k. (path_join out_dir (csv_name base_name (Suc k)), tables ! k)) [0..<m]"
    using save_loop_files [of tables env 1 out_dir base_name fs "[]"]
    by (simp add: save_tables_def)
  have chars: "\<forall>c \<in> set (csv_name base_name i). safe_char c"
    unfolding csv_name_def by (rule safe_filename_chars)
  from len have "length (csv_name base_name i) \<le> 180 + length (''__table'' @ str_nat i @ ''.csv'')"
    by linarith
  with len files chars safe_filename_chars [of s] safe_filename_length [of s]
  show ?thesis by blast
qed

theorem safe_filename_sanitized_witness:
  "list_all safe_char (csv_name ''type=fielding__view=dismissal_summary__class=3'' 1)
   \<and> length (csv_name ''type=fielding__view=dismissal_summary__class=3'' 1) \<le> 180
   \<and> csv_name ''type=fielding__view=dismissal_summary__class=3'' 1
       = ''type_fielding__view_dismissal_summary__class_3__table1.csv''"
proof -
  have n: "csv_name ''type=fielding__view=dismissal_summary__class=3'' 1
       = ''type_fielding__view_dismissal_summary__class_3__table1.csv''"
    by code_simp
  have "(\<forall>c \<in> set (csv_name ''type=fielding__view=dismissal_summary__class=3'' 1). safe_char c)
      \<and> length (csv_name ''type=fielding__view=dismissal_summary__class=3'' 1) \<le> 180"
    using safe_filename_sanitized
      [where base_name = "''type=fielding__view=dismissal_summary__class=3''" and i = 1]
    by blast
  with n show ?thesis
    by (simp only: list_all_iff) blast
qed

section \<open>Properties of the decimal rendering\<close>

lemma of_char_digit_char: "d < 10 \<Longrightarrow> of_char (digit_char d) = 48 + d"
  by (simp add: digit_char_def)

lemma digit_char_values:
  "digit_char 0 = CHR ''0''" "digit_char 1 = CHR ''1''" "digit_char 2 = CHR ''2''"
  "digit_char 3 = CHR ''3''" "digit_char 4 = CHR ''4''" "digit_char 5 = CHR ''5''"
  "digit_char 6 = CHR ''6''" "digit_char 7 = CHR ''7''" "digit_char 8 = CHR ''8''"
  "digit_char 9 = CHR ''9''" "digit_char (Suc 0) = CHR ''1''"
  by (simp_all add: digit_char_def char_of_def bit_0)

lemma str_nat_value: "foldl (\<lambda>a c. a * 10 + (of_char c - 48)) 0 (str_nat n) = n"
proof (induction n rule: str_nat.induct)
  case (1 n)
  show ?case
  proof (cases "n < 10")
    case True
    then show ?thesis
      by (subst str_nat.simps) (simp add: of_char_digit_char)
  next
    case False
    with 1 have ih: "foldl (\<lambda>a c. a * 10 + (of_char c - 48)) 0 (str_nat (n div 10)) = n div 10"
      by simp
    have "n mod 10 < 10" by simp
    then have d: "of_char (digit_char (n mod 10)) = 48 + n mod 10"
      by (rule of_char_digit_char)
    from False have "str_nat n = str_nat (n div 10) @ [digit_char (n mod 10)]"
      by (subst str_nat.simps) simp
    then show ?thesis
      by (simp add: ih d)
  qed
qed

lemma str_nat_inj:
  assumes "str_nat i = str_nat j"
  shows "i = j"
proof -
  have "i = foldl (\<lambda>a c. a * 10 + (of_char c - 48)) 0 (str_nat i)"
    by (simp only: str_nat_value)
  also have "\<dots> = foldl (\<lambda>a c. a * 10 + (of_char c - 48)) 0 (str_nat j)"
    by (simp only: assms)
  also have "\<dots> = j"
    by (simp only: str_nat_value)
  finally show ?thesis .
qed

lemma str_nat_length: "0 < k \<Longrightarrow> n < 10 ^ k \<Longrightarrow> length (str_nat n) \<le> k"
proof (induction k arbitrary: n)
  case 0
  then show ?case by simp
next
  case (Suc k)
  show ?case
  proof (cases "n < 10")
    case True
    then show ?thesis
      by (subst str_nat.simps) simp
  next
    case False
    with Suc.prems have k: "0 < k"
      by (cases k) auto
    from Suc.prems have "n div 10 < 10 ^ k"
      by (simp add: less_mult_imp_div_less mult.commute)
    with k have "length (str_nat (n div 10)) \<le> k"
      by (rule Suc.IH)
    with False show ?thesis
      by (subst str_nat.simps) simp
  qed
qed

section \<open>Properties of the workbook aggregator\<close>

lemma to_excel_accepted:
  "to_excel env df sheet writer = Inr w \<Longrightarrow> w = writer @ [(sheet, df)] \<and> sheet \<noteq> []"
  by (auto simp: to_excel_def split: if_splits option.splits)

lemma excel_inner_result:
  "excel_inner env key n i dfs writer = Inr w \<Longrightarrow>
     w = writer @ map (\<lambda>k. (sheet_name key n (i + k), dfs ! k)) [0..<length dfs]"
proof (induction dfs arbitrary: i writer)
  case Nil
  then show ?case by simp
next
  case (Cons df dfs)
  from Cons.prems obtain w1 where w1: "to_excel env df (sheet_name key n i) writer = Inr w1"
    by (cases "to_excel env df (sheet_name key n i) writer") auto
  then have w1_eq: "w1 = writer @ [(sheet_name key n i, df)]"
    using to_excel_accepted by blast
  from Cons.prems w1 have "excel_inner env key n (Suc i) dfs w1 = Inr w"
    by simp
  then have "w = w1 @ map (\<lambda>k. (sheet_name key n (Suc i + k), dfs ! k)) [0..<length dfs]"
    by (rule Cons.IH)
  moreover have "map (\<lambda>k. (sheet_name key n (i + k), (df # dfs) ! k)) [0..<length (df # dfs)]
      = (sheet_name key n i, df) # map (\<lambda>k. (sheet_name key n (Suc i + k), dfs ! k)) [0..<length dfs]"
    by (simp add: upt_rec [of 0 "Suc (length dfs)"] map_Suc_upt [symmetric] del: upt_Suc)
  ultimately show ?case
    by (simp add: w1_eq)
qed

lemma excel_outer_result:
  "excel_outer env tabs writer = Inr w \<Longrightarrow>
     w = writer @ concat (map (\<lambda>(key, dfs).
           map (\<lambda>k. (sheet_name key (length dfs) (1 + k), dfs ! k)) [0..<length dfs]) tabs)"
proof (induction tabs arbitrary: writer)
  case Nil
  then show ?case by simp
next
  case (Cons p tabs)
  obtain key dfs where p: "p = (key, dfs)"
    by (cases p)
  from Cons.prems obtain w1 where w1: "excel_inner env key (length dfs) 1 dfs writer = Inr w1"
    by (cases "excel_inner env key (length dfs) 1 dfs writer") (auto simp: p)
  then have w1_eq: "w1 = writer @ map (\<lambda>k. (sheet_name key (length dfs) (1 + k), dfs ! k)) [0..<length dfs]"
    by (rule excel_inner_result)
  from Cons.prems w1 have "excel_outer env tabs w1 = Inr w"
    by (simp add: p)
  then have "w = w1 @ concat (map (\<lambda>(key, dfs).
           map (\<lambda>k. (sheet_name key (length dfs) (1 + k), dfs ! k)) [0..<length dfs]) tabs)"
    by (rule Cons.IH)
  then show ?case
    by (simp add: w1_eq p)
qed

lemma write_excel_book_result:
  assumes "write_excel_book env tabs excel_path = Inr w"
  shows "w = concat (map (\<lambda>(key, dfs).
           map (\<lambda>k. (sheet_name key (length dfs) (1 + k), dfs ! k)) [0..<length dfs]) tabs)"
proof -
  from assms have "excel_outer env tabs [] = Inr w"
    by (auto simp: write_excel_book_def split: sum.splits option.splits)
  then show ?thesis
    using excel_outer_result by fastforce
qed

lemma excel_inner_names:
  "excel_inner env key n i dfs writer = Inr w \<Longrightarrow> \<forall>name \<in> fst ` set writer. name \<noteq> []
     \<Longrightarrow> \<forall>name \<in> fst ` set w. name \<noteq> []"
proof (induction dfs arbitrary: i writer)
  case Nil
  then show ?case by simp
next
  case (Cons df dfs)
  from Cons.prems(1) obtain w1 where w1: "to_excel env df (sheet_name key n i) writer = Inr w1"
    by (cases "to_excel env df (sheet_name key n i) writer") auto
  then have "w1 = writer @ [(sheet_name key n i, df)] \<and> sheet_name key n i \<noteq> []"
    by (rule to_excel_accepted)
  with Cons.prems(2) have names: "\<forall>name \<in> fst ` set w1. name \<noteq> []"
    by auto
  from Cons.prems(1) w1 have "excel_inner env key n (Suc i) dfs w1 = Inr w"
    by simp
  from this names show ?case
    by (rule Cons.IH)
qed

lemma excel_outer_names:
  "excel_outer env tabs writer = Inr w \<Longrightarrow> \<forall>name \<in> fst ` set writer. name \<noteq> []
     \<Longrightarrow> \<forall>name \<in> fst ` set w. name \<noteq> []"
proof (induction tabs arbitrary: writer)
  case Nil
  then show ?case by simp
next
  case (Cons p tabs)
  obtain key dfs where p: "p = (key, dfs)"
    by (cases p)
  from Cons.prems(1) obtain w1 where w1: "excel_inner env key (length dfs) 1 dfs writer = Inr w1"
    by (cases "excel_inner env key (length dfs) 1 dfs writer") (auto simp: p)
  from w1 Cons.prems(2) have names: "\<forall>name \<in> fst ` set w1. name \<noteq> []"
    by (rule excel_inner_names)
  from Cons.prems(1) w1 have "excel_outer env tabs w1 = Inr w"
    by (simp add: p)
  from this names show ?case
    by (rule Cons.IH)
qed

lemma write_excel_book_names:
  assumes "write_excel_book env tabs excel_path = Inr w"
  shows "\<forall>name \<in> fst ` set w. name \<noteq> []"
proof -
  from assms have "excel_outer env tabs [] = Inr w"
    by (auto simp: write_excel_book_def split: sum.splits option.splits)
  then show ?thesis
    by (rule excel_outer_names) simp
qed

lemma sheet_name_length: "length (sheet_name key n i) \<le> 31"
  by (simp add: sheet_name_def Let_def)

lemma sheet_name_single: "sheet_name key (Suc 0) i = take 25 (safe_filename key)"
  by (simp add: sheet_name_def Let_def min_def)

lemma sheet_name_inj:
  assumes "1 < n" and "i < 100000" and "j < 100000"
    and "sheet_name key n i = sheet_name key n j"
  shows "i = j"
proof -
  let ?p = "take 25 (safe_filename key)"
  have "length (str_nat i) \<le> 5" "length (str_nat j) \<le> 5"
    using assms(2,3) str_nat_length [of 5] by simp_all
  then have "length (?p @ ''_'' @ str_nat i) \<le> 31" "length (?p @ ''_'' @ str_nat j) \<le> 31"
    by simp_all
  then have "take 31 (?p @ ''_'' @ str_nat i) = ?p @ ''_'' @ str_nat i"
    and "take 31 (?p @ ''_'' @ str_nat j) = ?p @ ''_'' @ str_nat j"
    by (simp_all only: take_all)
  with assms(1,4) have "?p @ ''_'' @ str_nat i = ?p @ ''_'' @ str_nat j"
    by (simp only: sheet_name_def Let_def if_True)
  then have "str_nat i = str_nat j"
    by simp
  then show ?thesis
    by (rule str_nat_inj)
qed

lemma sheet_names_distinct:
  assumes "n \<le> 99999"
  shows "distinct (map (\<lambda>k. sheet_name key n (1 + k)) [0..<n])"
proof (cases "1 < n")
  case True
  have "inj_on (\<lambda>k. sheet_name key n (1 + k)) (set [0..<n])"
  proof (rule inj_onI)
    fix x y
    assume "x \<in> set [0..<n]" "y \<in> set [0..<n]"
      and eq: "sheet_name key n (1 + x) = sheet_name key n (1 + y)"
    with assms have "1 + x < 100000" "1 + y < 100000"
      by simp_all
    with True eq have "1 + x = 1 + y"
      by (intro sheet_name_inj [of n "1 + x" "1 + y" key])
    then show "x = y" by simp
  qed
  then show ?thesis
    by (simp add: distinct_map)
next
  case False
  then have "n = 0 \<or> n = 1"
    by linarith
  then show ?thesis
    by auto
qed

lemma sheet_name_six_digits:
  "sheet_name ''type=batting__view=innings__class=1'' 100001 100000
     = ''type_batting__view_inning_10000''"
  "sheet_name ''type=batting__view=innings__class=1'' 100001 100001
     = ''type_batting__view_inning_10000''"
  by (simp_all add: sheet_name_def safe_filename_def strip_def py_isspace_def safe_char_def
      str_nat.simps digit_char_values Let_def)

text \<open>
  C7, as the code has it. A page key with exactly one table gives one write, and the
  sheet name of that write is the sanitized key cut to 25 characters: the slice
  \<open>[:25]\<close> is applied before the test on the number of tables, so the later slice
  \<open>[:31]\<close> changes nothing. When \<open>write_excel_book\<close> returns, the writer has accepted the
  table under that name, and the name is not empty (on an empty name the library
  raises). Nothing is said here of what else is written under the same name.
\<close>

theorem single_table_sheet_name:
  "((key, [df]) \<in> set tabs \<and> write_excel_book env tabs excel_path = Inr w \<longrightarrow>
      (take 25 (safe_filename key), df) \<in> set w \<and> take 25 (safe_filename key) \<noteq> [])
   \<and> sheet_name key 1 i = take 25 (safe_filename key)"
proof (intro conjI impI)
  assume a: "(key, [df]) \<in> set tabs \<and> write_excel_book env tabs excel_path = Inr w"
  then have w: "w = concat (map (\<lambda>(key, dfs).
           map (\<lambda>k. (sheet_name key (length dfs) (1 + k), dfs ! k)) [0..<length dfs]) tabs)"
    using write_excel_book_result by blast
  have "map (\<lambda>k. (sheet_name key (length [df]) (1 + k), [df] ! k)) [0..<length [df]]
      = [(take 25 (safe_filename key), df)]"
    by (simp add: sheet_name_single)
  with a show mem: "(take 25 (safe_filename key), df) \<in> set w"
    unfolding w by force
  from a have "\<forall>name \<in> fst ` set w. name \<noteq> []"
    using write_excel_book_names by blast
  with mem show "take 25 (safe_filename key) \<noteq> []"
    by force
next
  show "sheet_name key 1 i = take 25 (safe_filename key)"
    by (simp add: sheet_name_single)
qed

theorem single_table_sheet_name_witness:
  "write_excel_book
     (\<lparr>session_get = (\<lambda>evs url. Inl (OtherError ''unused'')), soup_title = (\<lambda>html. None),
       html_tables = (\<lambda>html. Inr []), csv_error = (\<lambda>path. None),
       excel_error = (\<lambda>sheet df. None), xlsx_error = (\<lambda>path. None)\<rparr> :: nat env)
     [(''type=bowling__view=match__class=2'',
       [\<lparr>columns = [LStr ''Span''], data = [[VStr ''2015-2024'']]\<rparr>])]
     ''/out/player_625371_cricinfo_tables.xlsx''
   = Inr [(''type_bowling__view_match_'', \<lparr>columns = [LStr ''Span''], data = [[VStr ''2015-2024'']]\<rparr>)]
   \<and> (take 25 (safe_filename ''type=bowling__view=match__class=2''),
        \<lparr>columns = [LStr ''Span''], data = [[VStr ''2015-2024'']]\<rparr>)
       \<in> set [(''type_bowling__view_match_'',
                \<lparr>columns = [LStr ''Span''], data = [[VStr ''2015-2024'']]\<rparr>)]"
proof -
  let ?D = "\<lparr>columns = [LStr ''Span''], data = [[VStr ''2015-2024'']]\<rparr>"
  let ?K = "''type=bowling__view=match__class=2''"
  let ?p = "''/out/player_625371_cricinfo_tables.xlsx''"
  define env :: "nat env" where "env =
    \<lparr>session_get = (\<lambda>evs url. Inl (OtherError ''unused'')), soup_title = (\<lambda>html. None),
     html_tables = (\<lambda>html. Inr []), csv_error = (\<lambda>path. None),
     excel_error = (\<lambda>sheet df. None), xlsx_error = (\<lambda>path. None)\<rparr>"
  have name: "take 25 (safe_filename ?K) = ''type_bowling__view_match_''"
    by code_simp
  have run: "write_excel_book env [(?K, [?D])] ?p = Inr [(''type_bowling__view_match_'', ?D)]"
    by (simp add: write_excel_book_def to_excel_def sheet_name_single name env_def)
  have hyp: "(?K, [?D]) \<in> set [(?K, [?D])]
      \<and> write_excel_book env [(?K, [?D])] ?p = Inr [(''type_bowling__view_match_'', ?D)]"
    using run by simp
  have "(take 25 (safe_filename ?K), ?D) \<in> set [(''type_bowling__view_match_'', ?D)]
      \<and> take 25 (safe_filename ?K) \<noteq> []"
    by (rule single_table_sheet_name [where key = ?K and df = ?D and tabs = "[(?K, [?D])]"
          and env = env and excel_path = ?p and w = "[(''type_bowling__view_match_'', ?D)]"
          and i = 1, THEN conjunct1, THEN mp, OF hyp])
  with run show ?thesis
    unfolding env_def by blast
qed

text \<open>
  The claim as the specification words it, with the key cut to 31 characters, fails on
  every key whose sanitized form is longer than 25 characters; all the page keys of
  the orchestrator are.
\<close>

theorem single_table_sheet_name_counterexample:
  "write_excel_book
     (\<lparr>session_get = (\<lambda>evs url. Inl (OtherError ''unused'')), soup_title = (\<lambda>html. None),
       html_tables = (\<lambda>html. Inr []), csv_error = (\<lambda>path. None),
       excel_error = (\<lambda>sheet df. None), xlsx_error = (\<lambda>path. None)\<rparr> :: nat env)
     [(''type=batting__view=innings__class=1'',
       [\<lparr>columns = [LStr ''Span''], data = [[VStr ''2015-2024'']]\<rparr>])]
     ''/out/player_625371_cricinfo_tables.xlsx''
   = Inr [(''type_batting__view_inning'', \<lparr>columns = [LStr ''Span''], data = [[VStr ''2015-2024'']]\<rparr>)]
   \<and> take 31 (safe_filename ''type=batting__view=innings__class=1'')
       = ''type_batting__view_innings__cla''
   \<and> ''type_batting__view_inning'' \<noteq> take 31 (safe_filename ''type=batting__view=innings__class=1'')"
proof -
  let ?K = "''type=batting__view=innings__class=1''"
  have s: "safe_filename ?K = ''type_batting__view_innings__class_1''"
    by code_simp
  show ?thesis
    by (simp add: write_excel_book_def to_excel_def sheet_name_single s)
qed

text \<open>
  C8, as the code has it. Every sheet name that the aggregator gives to the writer has
  at most 31 characters. The names are, key after key in dictionary order, those of
  the tables of the key, \<open>sheet_name key n 1\<close> to \<open>sheet_name key n n\<close> for a key with \<open>n\<close>
  tables. The names of one key are pairwise distinct among themselves as long as the
  key has at most 99999 tables: the key is cut to 25 characters, which leaves room for
  the underscore and five digits. Nothing is said here of the names of different keys.
\<close>

theorem sheet_names_bounded_distinct:
  "(write_excel_book env tabs excel_path = Inr w \<longrightarrow>
      (\<forall>name \<in> set (map fst w). length name \<le> 31)
      \<and> map fst w = concat (map (\<lambda>(key, dfs).
            map (\<lambda>k. sheet_name key (length dfs) (1 + k)) [0..<length dfs]) tabs))
   \<and> length (sheet_name key n i) \<le> 31
   \<and> (n \<le> 99999 \<longrightarrow> distinct (map (\<lambda>k. sheet_name key n (1 + k)) [0..<n]))"
proof (intro conjI impI)
  assume "write_excel_book env tabs excel_path = Inr w"
  then have w: "w = concat (map (\<lambda>(key, dfs).
           map (\<lambda>k. (sheet_name key (length dfs) (1 + k), dfs ! k)) [0..<length dfs]) tabs)"
    by (rule write_excel_book_result)
  show "\<forall>name \<in> set (map fst w). length name \<le> 31"
    unfolding w by (auto simp: sheet_name_length)
  have "map fst (concat (map (\<lambda>(key, dfs).
           map (\<lambda>k. (sheet_name key (length dfs) (1 + k), dfs ! k)) [0..<length dfs]) ts))
      = concat (map (\<lambda>(key, dfs).
            map (\<lambda>k. sheet_name key (length dfs) (1 + k)) [0..<length dfs]) ts)" for ts
    by (induction ts) (auto simp: comp_def)
  then show "map fst w = concat (map (\<lambda>(key, dfs).
            map (\<lambda>k. sheet_name key (length dfs) (1 + k)) [0..<length dfs]) tabs)"
    unfolding w .
next
  show "length (sheet_name key n i) \<le> 31"
    by (rule sheet_name_length)
next
  assume "n \<le> 99999"
  then show "distinct (map (\<lambda>k. sheet_name key n (1 + k)) [0..<n])"
    by (rule sheet_names_distinct)
qed

theorem sheet_names_bounded_distinct_witness:
  "write_excel_book
     (\<lparr>session_get = (\<lambda>evs url. Inl (OtherError ''unused'')), soup_title = (\<lambda>html. None),
       html_tables = (\<lambda>html. Inr []), csv_error = (\<lambda>path. None),
       excel_error = (\<lambda>sheet df. None), xlsx_error = (\<lambda>path. None)\<rparr> :: nat env)
     [(''type=batting__view=innings__class=1'',
       [\<lparr>columns = [LStr ''Span''], data = [[VStr ''2015-2024'']]\<rparr>,
        \<lparr>columns = [LStr ''Mat''], data = [[VInt 12]]\<rparr>])]
     ''/out/player_625371_cricinfo_tables.xlsx''
   = Inr [(''type_batting__view_inning_1'', \<lparr>columns = [LStr ''Span''], data = [[VStr ''2015-2024'']]\<rparr>),
          (''type_batting__view_inning_2'', \<lparr>columns = [LStr ''Mat''], data = [[VInt 12]]\<rparr>)]
   \<and> list_all (\<lambda>name. length name \<le> 31)
        [''type_batting__view_inning_1'', ''type_batting__view_inning_2'']
   \<and> distinct (map (\<lambda>k. sheet_name ''type=batting__view=innings__class=1'' 2 (1 + k)) [0..<2])"
proof -
  let ?D1 = "\<lparr>columns = [LStr ''Span''], data = [[VStr ''2015-2024'']]\<rparr>"
  let ?D2 = "\<lparr>columns = [LStr ''Mat''], data = [[VInt 12]]\<rparr>"
  let ?K = "''type=batting__view=innings__class=1''"
  let ?p = "''/out/player_625371_cricinfo_tables.xlsx''"
  let ?w = "[(''type_batting__view_inning_1'', ?D1), (''type_batting__view_inning_2'', ?D2)]"
  define env :: "nat env" where "env =
    \<lparr>session_get = (\<lambda>evs url. Inl (OtherError ''unused'')), soup_title = (\<lambda>html. None),
     html_tables = (\<lambda>html. Inr []), csv_error = (\<lambda>path. None),
     excel_error = (\<lambda>sheet df. None), xlsx_error = (\<lambda>path. None)\<rparr>"
  have run: "write_excel_book env [(?K, [?D1, ?D2])] ?p = Inr ?w"
    unfolding env_def by code_simp
  note inst = sheet_names_bounded_distinct [where env = env and tabs = "[(?K, [?D1, ?D2])]"
      and excel_path = ?p and w = ?w and key = ?K and n = 2 and i = 1]
  from inst run have "\<forall>name \<in> set (map fst ?w). length name \<le> 31"
    by blast
  then have short: "list_all (\<lambda>name. length name \<le> 31)
      [''type_batting__view_inning_1'', ''type_batting__view_inning_2'']"
    by (simp only: list_all_iff list.map fst_conv)
  from inst have "distinct (map (\<lambda>k. sheet_name ?K 2 (1 + k)) [0..<2])"
    by simp
  with run short show ?thesis
    unfolding env_def by blast
qed

text \<open>
  The names are not pairwise distinct for every input. With 100001 tables under one key
  of 25 or more sanitized characters, the ordinals 100000 and 100001 have six digits
  and the slice \<open>[:31]\<close> cuts the last one off. And two keys that agree on their first 25
  sanitized characters give the same names to their tables: here the two keys, with
  two tables each, bring four writes under two names.
\<close>

theorem sheet_names_distinct_counterexample:
  "sheet_name ''type=batting__view=innings__class=1'' 100001 100000
     = ''type_batting__view_inning_10000''
   \<and> sheet_name ''type=batting__view=innings__class=1'' 100001 100001
     = ''type_batting__view_inning_10000''
   \<and> write_excel_book
       (\<lparr>session_get = (\<lambda>evs url. Inl (OtherError ''unused'')), soup_title = (\<lambda>html. None),
         html_tables = (\<lambda>html. Inr []), csv_error = (\<lambda>path. None),
         excel_error = (\<lambda>sheet df. None), xlsx_error = (\<lambda>path. None)\<rparr> :: nat env)
       [(''type=batting__view=innings__class=1'',
         [\<lparr>columns = [LStr ''Span''], data = [[VStr ''2015-2024'']]\<rparr>,
          \<lparr>columns = [LStr ''Mat''], data = [[VInt 12]]\<rparr>]),
        (''type=batting__view=innings__class=2'',
         [\<lparr>columns = [LStr ''Span''], data = [[VStr ''2016-2023'']]\<rparr>,
          \<lparr>columns = [LStr ''Mat''], data = [[VInt 40]]\<rparr>])]
       ''/out/player_625371_cricinfo_tables.xlsx''
     = Inr [(''type_batting__view_inning_1'', \<lparr>columns = [LStr ''Span''], data = [[VStr ''2015-2024'']]\<rparr>),
            (''type_batting__view_inning_2'', \<lparr>columns = [LStr ''Mat''], data = [[VInt 12]]\<rparr>),
            (''type_batting__view_inning_1'', \<lparr>columns = [LStr ''Span''], data = [[VStr ''2016-2023'']]\<rparr>),
            (''type_batting__view_inning_2'', \<lparr>columns = [LStr ''Mat''], data = [[VInt 40]]\<rparr>)]"
proof -
  have "write_excel_book
       (\<lparr>session_get = (\<lambda>evs url. Inl (OtherError ''unused'')), soup_title = (\<lambda>html. None),
         html_tables = (\<lambda>html. Inr []), csv_error = (\<lambda>path. None),
         excel_error = (\<lambda>sheet df. None), xlsx_error = (\<lambda>path. None)\<rparr> :: nat env)
       [(''type=batting__view=innings__class=1'',
         [\<lparr>columns = [LStr ''Span''], data = [[VStr ''2015-2024'']]\<rparr>,
          \<lparr>columns = [LStr ''Mat''], data = [[VInt 12]]\<rparr>]),
        (''type=batting__view=innings__class=2'',
         [\<lparr>columns = [LStr ''Span''], data = [[VStr ''2016-2023'']]\<rparr>,
          \<lparr>columns = [LStr ''Mat''], data = [[VInt 40]]\<rparr>])]
       ''/out/player_625371_cricinfo_tables.xlsx''
     = Inr [(''type_batting__view_inning_1'', \<lparr>columns = [LStr ''Span''], data = [[VStr ''2015-2024'']]\<rparr>),
            (''type_batting__view_inning_2'', \<lparr>columns = [LStr ''Mat''], data = [[VInt 12]]\<rparr>),
            (''type_batting__view_inning_1'', \<lparr>columns = [LStr ''Span''], data = [[VStr ''2016-2023'']]\<rparr>),
            (''type_batting__view_inning_2'', \<lparr>columns = [LStr ''Mat''], data = [[VInt 40]]\<rparr>)]"
    by code_simp
  with sheet_name_six_digits show ?thesis
    by blast
qed

text \<open>
  In the file, the four writes of these two keys make two sheets: the tables of the
  second key are laid over those of the first.
\<close>

lemma sheets_of_shared_names:
  "sheets_of new_title
     [(''type_batting__view_inning_1'', \<lparr>columns = [LStr ''Span''], data = [[VStr ''2015-2024'']]\<rparr>),
      (''type_batting__view_inning_2'', \<lparr>columns = [LStr ''Mat''], data = [[VInt 12]]\<rparr>),
      (''type_batting__view_inning_1'', \<lparr>columns = [LStr ''Span''], data = [[VStr ''2016-2023'']]\<rparr>),
      (''type_batting__view_inning_2'', \<lparr>columns = [LStr ''Mat''], data = [[VInt 40]]\<rparr>)]
   = [(''type_batting__view_inning_1'',
       [\<lparr>columns = [LStr ''Span''], data = [[VStr ''2015-2024'']]\<rparr>,
        \<lparr>columns = [LStr ''Span''], data = [[VStr ''2016-2023'']]\<rparr>]),
      (''type_batting__view_inning_2'',
       [\<lparr>columns = [LStr ''Mat''], data = [[VInt 12]]\<rparr>,
        \<lparr>columns = [LStr ''Mat''], data = [[VInt 40]]\<rparr>])]"
  by (simp add: sheets_of_def lay_def ascii_lower_def)

section \<open>Properties of the URL builder\<close>

lemma str_nat_digits: "c \<in> set (str_nat n) \<Longrightarrow> 48 \<le> (of_char c :: nat) \<and> (of_char c :: nat) \<le> 57"
proof (induction n arbitrary: c rule: str_nat.induct)
  case (1 n)
  show ?case
  proof (cases "n < 10")
    case True
    with "1.prems" have "c = digit_char n"
      by (subst (asm) str_nat.simps) simp
    with True show ?thesis
      by (simp add: of_char_digit_char)
  next
    case False
    with "1.prems" have "c \<in> set (str_nat (n div 10)) \<or> c = digit_char (n mod 10)"
      by (subst (asm) str_nat.simps) auto
    then show ?thesis
    proof
      assume "c \<in> set (str_nat (n div 10))"
      with False show ?thesis by (rule "1.IH")
    next
      have "n mod 10 < 10" by simp
      then have "of_char (digit_char (n mod 10)) = 48 + n mod 10"
        by (rule of_char_digit_char)
      moreover assume "c = digit_char (n mod 10)"
      ultimately show ?thesis by simp
    qed
  qed
qed

lemma str_int_chars:
  assumes "c \<in> set (str_int i)"
  shows "c \<noteq> CHR ''?'' \<and> c \<noteq> CHR '';''"
proof (cases "c = CHR ''-''")
  case True
  then show ?thesis by simp
next
  case False
  with assms have "c \<in> set (str_nat (nat (- i))) \<or> c \<in> set (str_nat (nat i))"
    by (auto simp: str_int_def split: if_splits)
  then have "48 \<le> (of_char c :: nat) \<and> (of_char c :: nat) \<le> 57"
    using str_nat_digits by blast
  then show ?thesis by auto
qed

lemma BASE_no_question_mark: "c \<in> set (BASE player_id) \<Longrightarrow> c \<noteq> CHR ''?''"
  using str_int_chars [of c player_id] by (auto simp: BASE_def)

lemma join_Cons: "join sep (x # xs) = x @ concat (map (\<lambda>y. sep @ y) xs)"
  by (induction xs arbitrary: x) simp_all

lemma make_url_spec_params:
  "make_url player_id spec = BASE player_id @ ''?'' @ join '';'' (map fmt_param (spec_params spec))"
  by (simp add: make_url_def spec_params_def Let_def split: option.splits)

lemma query_string_make_url:
  "query_string (make_url player_id spec) = join '';'' (map fmt_param (spec_params spec))"
proof -
  have "dropWhile (\<lambda>c. c \<noteq> CHR ''?'') (BASE player_id @ ''?'' @ join '';'' (map fmt_param (spec_params spec)))
      = dropWhile (\<lambda>c. c \<noteq> CHR ''?'') (''?'' @ join '';'' (map fmt_param (spec_params spec)))"
    by (rule dropWhile_append2) (rule BASE_no_question_mark)
  then show ?thesis
    by (simp add: query_string_def make_url_spec_params)
qed

lemma first_param_join:
  assumes "\<And>c. c \<in> set x \<Longrightarrow> c \<noteq> CHR '';''" and "xs \<noteq> []"
  shows "first_param (join '';'' (x # xs)) = x"
proof -
  from assms(2) obtain y ys where xs: "xs = y # ys"
    by (cases xs) auto
  have "takeWhile (\<lambda>c. c \<noteq> CHR '';'') (x @ concat (map (\<lambda>y. '';'' @ y) xs))
      = x @ takeWhile (\<lambda>c. c \<noteq> CHR '';'') (concat (map (\<lambda>y. '';'' @ y) xs))"
    by (rule takeWhile_append2) (rule assms(1))
  then show ?thesis
    by (simp add: first_param_def join_Cons xs)
qed

lemma first_param_make_url:
  "first_param (query_string (make_url player_id spec))
     = (case cls spec of Some c \<Rightarrow> ''class='' @ str_int c | None \<Rightarrow> ''template=results'')"
proof (cases "cls spec")
  case None
  have "first_param (join '';'' (''template=results'' # map fmt_param
      ([(''type'', type spec)]
       @ (case view spec of Some v \<Rightarrow> if v = [] then [] else [(''view'', v)] | None \<Rightarrow> [])
       @ (case extra_params spec of Some d \<Rightarrow> d | None \<Rightarrow> [])))) = ''template=results''"
    by (rule first_param_join) auto
  with None show ?thesis
    by (simp add: query_string_make_url spec_params_def fmt_param_def)
next
  case (Some c)
  have "first_param (join '';'' ((''class='' @ str_int c) # map fmt_param
      ([(''template'', ''results''), (''type'', type spec)]
       @ (case view spec of Some v \<Rightarrow> if v = [] then [] else [(''view'', v)] | None \<Rightarrow> [])
       @ (case extra_params spec of Some d \<Rightarrow> d | None \<Rightarrow> [])))) = ''class='' @ str_int c"
    by (rule first_param_join) (use str_int_chars [of _ c] in auto)
  with Some show ?thesis
    by (simp add: query_string_make_url spec_params_def fmt_param_def)
qed

lemma ampersand_join:
  "CHR ''&'' \<in> set (join '';'' xs) \<longleftrightarrow> list_ex (\<lambda>x. CHR ''&'' \<in> set x) xs"
proof (cases xs)
  case Nil
  then show ?thesis by simp
next
  case (Cons y ys)
  then show ?thesis
    by (auto simp: join_Cons list_ex_iff)
qed

text \<open>
  C1. For every player identifier and every query specification, the URL is the base
  path of the player, a question mark and the query string; the query string is the
  parameters \<open>class\<close> (when the format class is set), \<open>template=results\<close>, \<open>type\<close>,
  \<open>view\<close> (when the sub-view is a non-empty string) and the extra parameters in
  insertion order, each written \<open>key=value\<close> and joined with semicolons. Its first
  parameter is \<open>class=<value>\<close> when the format class is set and \<open>template=results\<close>
  when it is not. An ampersand occurs in the query string only where a parameter's own
  text has one: the joining never adds any.
\<close>

theorem make_url_query_string:
  "make_url player_id spec = BASE player_id @ ''?'' @ query_string (make_url player_id spec)
   \<and> query_string (make_url player_id spec) = join '';'' (map fmt_param (spec_params spec))
   \<and> first_param (query_string (make_url player_id spec))
       = (case cls spec of Some c \<Rightarrow> ''class='' @ str_int c | None \<Rightarrow> ''template=results'')
   \<and> (CHR ''&'' \<in> set (query_string (make_url player_id spec))
        \<longleftrightarrow> list_ex (\<lambda>p. CHR ''&'' \<in> set (fmt_param p)) (spec_params spec))"
proof -
  have "CHR ''&'' \<in> set (query_string (make_url player_id spec))
      \<longleftrightarrow> list_ex (\<lambda>p. CHR ''&'' \<in> set (fmt_param p)) (spec_params spec)"
    unfolding query_string_make_url ampersand_join by (simp add: list_ex_iff)
  with make_url_spec_params [of player_id spec] query_string_make_url [of player_id spec]
    first_param_make_url [of player_id spec]
  show ?thesis by simp
qed

lemma str_int_625371: "str_int 625371 = ''625371''"
  by (simp add: str_int_def str_nat.simps digit_char_values)

lemma str_int_digit:
  "str_int 1 = ''1''" "str_int 2 = ''2''" "str_int 3 = ''3''"
  "str_int 4 = ''4''" "str_int 5 = ''5''" "str_int 6 = ''6''"
  by (simp_all add: str_int_def str_nat.simps digit_char_values)

theorem make_url_query_string_witness:
  "make_url 625371 \<lparr>type = ''fielding'', view = Some ''dismissal_summary'', cls = Some 3,
       extra_params = None\<rparr>
     = ''https://stats.espncricinfo.com/ci/engine/player/625371.html?class=3;template=results;type=fielding;view=dismissal_summary''
   \<and> first_param (query_string (make_url 625371
        \<lparr>type = ''fielding'', view = Some ''dismissal_summary'', cls = Some 3,
         extra_params = None\<rparr>)) = ''class=3''
   \<and> CHR ''&'' \<notin> set (query_string (make_url 625371
        \<lparr>type = ''fielding'', view = Some ''dismissal_summary'', cls = Some 3,
         extra_params = None\<rparr>))"
proof -
  let ?spec = "\<lparr>type = ''fielding'', view = Some ''dismissal_summary'', cls = Some 3,
      extra_params = None\<rparr>"
  note inst = make_url_query_string [of 625371 ?spec]
  from inst have q: "query_string (make_url 625371 ?spec) = join '';'' (map fmt_param (spec_params ?spec))"
    by blast
  have qv: "query_string (make_url 625371 ?spec)
      = ''class=3;template=results;type=fielding;view=dismissal_summary''"
    unfolding q by (simp add: spec_params_def fmt_param_def str_int_digit)
  from inst have "make_url 625371 ?spec = BASE 625371 @ ''?'' @ query_string (make_url 625371 ?spec)"
    by blast
  then have u: "make_url 625371 ?spec
      = ''https://stats.espncricinfo.com/ci/engine/player/625371.html?class=3;template=results;type=fielding;view=dismissal_summary''"
    unfolding qv by (simp add: BASE_def str_int_625371)
  from inst have "first_param (query_string (make_url 625371 ?spec))
      = (case cls ?spec of Some c \<Rightarrow> ''class='' @ str_int c | None \<Rightarrow> ''template=results'')"
    by blast
  then have f: "first_param (query_string (make_url 625371 ?spec)) = ''class=3''"
    by (simp add: str_int_digit)
  have "CHR ''&'' \<notin> set (query_string (make_url 625371 ?spec))"
    unfolding qv by simp
  with u f show ?thesis
    by blast
qed

section \<open>Properties of the table extractor\<close>

lemma select_indices:
  "length xs = n \<Longrightarrow> select (map P [0..<n]) xs = map ((!) xs) (filter P [0..<n])"
proof (induction xs arbitrary: n rule: rev_induct)
  case Nil
  then show ?case by (simp add: select_def)
next
  case (snoc x xs)
  then obtain m where n: "n = Suc m" and m: "length xs = m"
    by (cases n) auto
  from snoc.IH [OF m] have ih: "select (map P [0..<m]) xs = map ((!) xs) (filter P [0..<m])" .
  have old: "map ((!) (xs @ [x])) (filter P [0..<m]) = map ((!) xs) (filter P [0..<m])"
    using m by (auto simp: nth_append)
  have "select (map P [0..<Suc m]) (xs @ [x])
      = select (map P [0..<m]) xs @ (if P m then [x] else [])"
    using m by (simp add: select_def)
  also have "\<dots> = map ((!) (xs @ [x])) (filter P [0..<Suc m])"
    using m by (simp add: ih old nth_append)
  finally show ?case
    unfolding n .
qed

lemma dropna_cols_indices:
  assumes "wf_df df"
  shows "dropna_cols df =
    \<lparr>columns = map ((!) (columns df))
        (filter (\<lambda>j. \<exists>r \<in> set (data df). r ! j \<noteq> NA) [0..<length (columns df)]),
     data = map (\<lambda>r. map ((!) r)
        (filter (\<lambda>j. \<exists>r \<in> set (data df). r ! j \<noteq> NA) [0..<length (columns df)])) (data df)\<rparr>"
proof -
  let ?P = "\<lambda>j. \<exists>r \<in> set (data df). r ! j \<noteq> NA"
  let ?n = "length (columns df)"
  have mask: "map (\<lambda>j. list_ex (\<lambda>r. r ! j \<noteq> NA) (data df)) [0..<?n] = map ?P [0..<?n]"
    by (simp add: list_ex_iff)
  have cols: "select (map ?P [0..<?n]) (columns df) = map ((!) (columns df)) (filter ?P [0..<?n])"
    by (rule select_indices) simp
  have rows: "map (select (map ?P [0..<?n])) (data df)
      = map (\<lambda>r. map ((!) r) (filter ?P [0..<?n])) (data df)"
  proof (rule map_cong [OF refl])
    fix r
    assume "r \<in> set (data df)"
    with assms have "length r = ?n"
      by (simp add: wf_df_def list_all_iff)
    then show "select (map ?P [0..<?n]) r = map ((!) r) (filter ?P [0..<?n])"
      by (rule select_indices)
  qed
  show ?thesis
    unfolding dropna_cols_def Let_def mask cols rows ..
qed

lemma clean_loop_result:
  "clean_loop dfs cleaned
     = cleaned @ filter (\<lambda>d. data d \<noteq> [] \<and> columns d \<noteq> [])
         (map (\<lambda>df. dropna_rows (dropna_cols df)) dfs)"
  by (induction dfs arbitrary: cleaned) (simp_all add: Let_def)

lemma read_tables_from_html_no_tables:
  assumes "html_tables env (strip_doctype html) = Inr []"
  shows "read_tables_from_html env html = Inl (ValueError ''No tables found'')"
  using assms by (simp add: read_tables_from_html_def pd_read_html_def)

lemma read_tables_from_html_tables:
  assumes "html_tables env (strip_doctype html) = Inr dfs" and "dfs \<noteq> []"
  shows "read_tables_from_html env html
    = Inr (filter (\<lambda>d. data d \<noteq> [] \<and> columns d \<noteq> [])
        (map (\<lambda>df. dropna_rows (dropna_cols df)) dfs))"
  using assms by (simp add: read_tables_from_html_def pd_read_html_def clean_loop_result)

lemma read_tables_from_html_raises:
  assumes "html_tables env (strip_doctype html) = Inl e"
  shows "read_tables_from_html env html = Inl e"
  using assms by (simp add: read_tables_from_html_def pd_read_html_def)

text \<open>
  C4. For a page in which the HTML parser finds tables (after the removal of the
  document type declaration), the extractor returns, in the parser's order, each table
  with first its columns that are empty in every row dropped and then its rows that are
  empty in every remaining column dropped, leaving out the tables that have no row or
  no column left; when every table is left out, the result is the empty list. On a
  rectangular table the first step keeps the columns, by position, in which some row
  has a value, and the second keeps the rows that have a value. For a page in which
  the parser finds no table at all, the extractor does not return the empty list:
  \<open>pandas.read_html\<close> raises \<open>ValueError("No tables found")\<close> and the extractor, which
  has no handler around the call, raises it too. The comment above the call expects
  an empty list there.
\<close>

theorem read_tables_from_html_cleaned:
  "(html_tables env (strip_doctype html) = Inr [] \<longrightarrow>
      read_tables_from_html env html = Inl (ValueError ''No tables found''))
   \<and> (html_tables env (strip_doctype html) = Inr dfs \<and> dfs \<noteq> [] \<longrightarrow>
      read_tables_from_html env html
        = Inr (filter (\<lambda>d. data d \<noteq> [] \<and> columns d \<noteq> [])
            (map (\<lambda>df. dropna_rows (dropna_cols df)) dfs)))
   \<and> (html_tables env (strip_doctype html) = Inr dfs \<and> dfs \<noteq> []
        \<and> (\<forall>df \<in> set dfs. data (dropna_rows (dropna_cols df)) = []
              \<or> columns (dropna_rows (dropna_cols df)) = [])
        \<longrightarrow> read_tables_from_html env html = Inr [])
   \<and> (html_tables env (strip_doctype html) = Inl e \<longrightarrow> read_tables_from_html env html = Inl e)
   \<and> (wf_df df \<longrightarrow>
        dropna_cols df =
          \<lparr>columns = map ((!) (columns df))
              (filter (\<lambda>j. \<exists>r \<in> set (data df). r ! j \<noteq> NA) [0..<length (columns df)]),
           data = map (\<lambda>r. map ((!) r)
              (filter (\<lambda>j. \<exists>r \<in> set (data df). r ! j \<noteq> NA) [0..<length (columns df)])) (data df)\<rparr>)
   \<and> dropna_rows df = df\<lparr>data := filter (\<lambda>r. \<exists>x \<in> set r. x \<noteq> NA) (data df)\<rparr>"
proof -
  have "list_ex (\<lambda>x. x \<noteq> NA) = (\<lambda>r. \<exists>x \<in> set r. x \<noteq> NA)"
    by (simp add: fun_eq_iff list_ex_iff)
  then have rows: "dropna_rows df = df\<lparr>data := filter (\<lambda>r. \<exists>x \<in> set r. x \<noteq> NA) (data df)\<rparr>"
    by (simp add: dropna_rows_def)
  have none: "html_tables env (strip_doctype html) = Inr [] \<longrightarrow>
      read_tables_from_html env html = Inl (ValueError ''No tables found'')"
    using read_tables_from_html_no_tables by blast
  have all: "html_tables env (strip_doctype html) = Inr dfs \<and> dfs \<noteq> [] \<longrightarrow>
      read_tables_from_html env html
        = Inr (filter (\<lambda>d. data d \<noteq> [] \<and> columns d \<noteq> [])
            (map (\<lambda>df. dropna_rows (dropna_cols df)) dfs))"
    using read_tables_from_html_tables by blast
  have discarded: "html_tables env (strip_doctype html) = Inr dfs \<and> dfs \<noteq> []
        \<and> (\<forall>df \<in> set dfs. data (dropna_rows (dropna_cols df)) = []
              \<or> columns (dropna_rows (dropna_cols df)) = [])
        \<longrightarrow> read_tables_from_html env html = Inr []"
    by (auto simp: read_tables_from_html_tables filter_empty_conv)
  have raised: "html_tables env (strip_doctype html) = Inl e \<longrightarrow> read_tables_from_html env html = Inl e"
    using read_tables_from_html_raises by blast
  from rows all none discarded raised dropna_cols_indices [of df] show ?thesis
    by (intro conjI impI) (assumption | blast)+
qed

lemma strip_doctype_examples:
  "strip_doctype ''<!DocType html><table>'' = ''<table>''"
  "strip_doctype ''<html><body><p>no table here</p></body></html>''
     = ''<html><body><p>no table here</p></body></html>''"
  by code_simp+

theorem read_tables_from_html_cleaned_witness:
  "read_tables_from_html
     (\<lparr>session_get = (\<lambda>evs url. Inl (OtherError ''unused'')),
      soup_title = (\<lambda>html. None),
      html_tables = (\<lambda>html.
        if html = ''<table>''
        then Inr [\<lparr>columns = [LStr ''Span'', LStr ''Note'', LStr ''Mat''],
                   data = [[VStr ''2015-2024'', NA, VInt 12],
                           [NA, NA, NA],
                           [VStr ''2019-2024'', NA, VInt 7]]\<rparr>,
                  \<lparr>columns = [LInt 0], data = [[NA]]\<rparr>]
        else Inr []),
      csv_error = (\<lambda>path. None),
      excel_error = (\<lambda>sheet df. None), xlsx_error = (\<lambda>path. None)\<rparr> :: nat env)
     ''<html><body><p>no table here</p></body></html>''
   = Inl (ValueError ''No tables found'')
   \<and> read_tables_from_html
     (\<lparr>session_get = (\<lambda>evs url. Inl (OtherError ''unused'')),
      soup_title = (\<lambda>html. None),
      html_tables = (\<lambda>html.
        if html = ''<table>''
        then Inr [\<lparr>columns = [LStr ''Span'', LStr ''Note'', LStr ''Mat''],
                   data = [[VStr ''2015-2024'', NA, VInt 12],
                           [NA, NA, NA],
                           [VStr ''2019-2024'', NA, VInt 7]]\<rparr>,
                  \<lparr>columns = [LInt 0], data = [[NA]]\<rparr>]
        else Inr []),
      csv_error = (\<lambda>path. None),
      excel_error = (\<lambda>sheet df. None), xlsx_error = (\<lambda>path. None)\<rparr> :: nat env)
     ''<!DocType html><table>''
   = Inr [\<lparr>columns = [LStr ''Span'', LStr ''Mat''],
            data = [[VStr ''2015-2024'', VInt 12], [VStr ''2019-2024'', VInt 7]]\<rparr>]"
proof -
  let ?T1 = "\<lparr>columns = [LStr ''Span'', LStr ''Note'', LStr ''Mat''],
                   data = [[VStr ''2015-2024'', NA, VInt 12],
                           [NA, NA, NA],
                           [VStr ''2019-2024'', NA, VInt 7]]\<rparr>"
  let ?T2 = "\<lparr>columns = [LInt 0], data = [[NA]]\<rparr>"
  let ?page = "''<html><body><p>no table here</p></body></html>''"
  define env :: "nat env" where "env =
    \<lparr>session_get = (\<lambda>evs url. Inl (OtherError ''unused'')),
      soup_title = (\<lambda>html. None),
      html_tables = (\<lambda>html. if html = ''<table>'' then Inr [?T1, ?T2] else Inr []),
      csv_error = (\<lambda>path. None),
      excel_error = (\<lambda>sheet df. None), xlsx_error = (\<lambda>path. None)\<rparr>"
  have empty: "html_tables env (strip_doctype ?page) = Inr []"
    unfolding strip_doctype_examples by (simp add: env_def)
  have no_tables: "read_tables_from_html env ?page = Inl (ValueError ''No tables found'')"
    by (rule read_tables_from_html_cleaned [where env = env and html = ?page,
        THEN conjunct1, THEN mp, OF empty])
  have parsed: "html_tables env (strip_doctype ''<!DocType html><table>'') = Inr [?T1, ?T2]
      \<and> [?T1, ?T2] \<noteq> []"
    unfolding strip_doctype_examples by (simp add: env_def)
  have t1: "dropna_rows (dropna_cols ?T1)
      = \<lparr>columns = [LStr ''Span'', LStr ''Mat''],
         data = [[VStr ''2015-2024'', VInt 12], [VStr ''2019-2024'', VInt 7]]\<rparr>"
    by (simp add: dropna_rows_def dropna_cols_def select_def upt_rec)
  have t2: "dropna_rows (dropna_cols ?T2) = \<lparr>columns = [], data = []\<rparr>"
    by (simp add: dropna_rows_def dropna_cols_def select_def)
  have "read_tables_from_html env ''<!DocType html><table>''
      = Inr (filter (\<lambda>d. data d \<noteq> [] \<and> columns d \<noteq> [])
            (map (\<lambda>df. dropna_rows (dropna_cols df)) [?T1, ?T2]))"
    by (rule read_tables_from_html_cleaned [where env = env and html = "''<!DocType html><table>''"
        and dfs = "[?T1, ?T2]", THEN conjunct2, THEN conjunct1, THEN mp, OF parsed])
  then have "read_tables_from_html env ''<!DocType html><table>''
      = Inr [\<lparr>columns = [LStr ''Span'', LStr ''Mat''],
            data = [[VStr ''2015-2024'', VInt 12], [VStr ''2019-2024'', VInt 7]]\<rparr>]"
    by (simp add: t1 t2)
  with no_tables show ?thesis
    unfolding env_def by blast
qed

section \<open>Properties of the page fetcher\<close>

lemma fetch_html_response:
  assumes "session_get env evs url = Inr r"
  shows "fetch_html env url sleep_s evs
    = (if status_code r \<noteq> 200
       then Inl (RuntimeError (''HTTP '' @ str_int (status_code r) @ '' for '' @ url
              @ [CHR 0x0A] @ ''First 300 chars:'' @ [CHR 0x0A] @ take 300 (resp_text r)))
       else Inr (resp_text r),
       evs @ [Get url, Sleep sleep_s])"
  using assms by (simp add: fetch_html_def Let_def)

lemma fetch_html_transport:
  assumes "session_get env evs url = Inl e"
  shows "fetch_html env url sleep_s evs = (Inl e, evs @ [Get url])"
  using assms by (simp add: fetch_html_def)

lemma requested_append: "requested (xs @ ys) = requested xs @ requested ys"
  by (simp add: requested_def)

lemma fetch_html_requested:
  "requested (snd (fetch_html env url sleep_s evs)) = requested evs @ [url]"
proof (cases "session_get env evs url")
  case (Inl e)
  then show ?thesis
    by (simp add: fetch_html_transport requested_append) (simp add: requested_def)
next
  case (Inr r)
  then show ?thesis
    by (simp add: fetch_html_response requested_append) (simp add: requested_def)
qed

text \<open>
  C6, as the code has it. When the request returns a response, whatever its status,
  the fetcher sleeps for the configured delay right after the request, and then
  returns the body (status 200) or raises the HTTP diagnostic (any other status).
  When the request fails before a response arrives, the exception leaves the fetcher
  at once: the request is the only event and no sleep is performed.
\<close>

theorem fetch_html_sleep:
  "(session_get env evs url = Inr r \<longrightarrow>
      snd (fetch_html env url sleep_s evs) = evs @ [Get url, Sleep sleep_s]
      \<and> (status_code r = 200 \<longrightarrow> fst (fetch_html env url sleep_s evs) = Inr (resp_text r))
      \<and> (status_code r \<noteq> 200 \<longrightarrow>
            fst (fetch_html env url sleep_s evs)
              = Inl (RuntimeError (''HTTP '' @ str_int (status_code r) @ '' for '' @ url
                  @ [CHR 0x0A] @ ''First 300 chars:'' @ [CHR 0x0A] @ take 300 (resp_text r)))))
   \<and> (session_get env evs url = Inl e \<longrightarrow>
        fetch_html env url sleep_s evs = (Inl e, evs @ [Get url]))"
  by (simp add: fetch_html_response fetch_html_transport)

theorem fetch_html_sleep_witness:
  "fetch_html
     \<lparr>session_get = (\<lambda>evs url. Inr \<lparr>status_code = 404, resp_text = ''Not Found''\<rparr>),
      soup_title = (\<lambda>html. None), html_tables = (\<lambda>html. Inr []), csv_error = (\<lambda>path. None),
      excel_error = (\<lambda>sheet df. None), xlsx_error = (\<lambda>path. None)\<rparr>
     ''https://stats.espncricinfo.com/x'' (700 :: nat) []
   = (Inl (RuntimeError (''HTTP 404 for https://stats.espncricinfo.com/x''
            @ [CHR 0x0A] @ ''First 300 chars:'' @ [CHR 0x0A] @ ''Not Found'')),
      [Get ''https://stats.espncricinfo.com/x'', Sleep 700])"
proof -
  let ?r = "\<lparr>status_code = 404, resp_text = ''Not Found''\<rparr>"
  let ?env = "\<lparr>session_get = (\<lambda>evs url. Inr ?r),
      soup_title = (\<lambda>html. None), html_tables = (\<lambda>html. Inr []), csv_error = (\<lambda>path. None),
      excel_error = (\<lambda>sheet df. None), xlsx_error = (\<lambda>path. None)\<rparr>
      :: nat env"
  have get: "session_get ?env [] ''https://stats.espncricinfo.com/x'' = Inr ?r"
    by simp
  have code: "str_int 404 = ''404''"
    by (simp add: str_int_def str_nat.simps digit_char_values)
  from fetch_html_sleep [of ?env "[]" "''https://stats.espncricinfo.com/x''" ?r 700] get
  have "snd (fetch_html ?env ''https://stats.espncricinfo.com/x'' 700 []) =
          [] @ [Get ''https://stats.espncricinfo.com/x'', Sleep 700]
      \<and> fst (fetch_html ?env ''https://stats.espncricinfo.com/x'' 700 [])
          = Inl (RuntimeError (''HTTP '' @ str_int (status_code ?r) @ '' for ''
              @ ''https://stats.espncricinfo.com/x''
              @ [CHR 0x0A] @ ''First 300 chars:'' @ [CHR 0x0A] @ take 300 (resp_text ?r)))"
    by simp
  then show ?thesis
    by (simp add: code prod_eq_iff)
qed

text \<open>
  The claim as the specification words it, with a sleep after a request that fails at
  the transport level, fails: such a request leaves no sleep among the events.
\<close>

theorem fetch_html_sleep_counterexample:
  "fetch_html
     \<lparr>session_get = (\<lambda>evs url. Inl (OtherError ''connection refused'')),
      soup_title = (\<lambda>html. None), html_tables = (\<lambda>html. Inr []), csv_error = (\<lambda>path. None),
      excel_error = (\<lambda>sheet df. None), xlsx_error = (\<lambda>path. None)\<rparr>
     ''https://stats.espncricinfo.com/x'' (700 :: nat) []
   = (Inl (OtherError ''connection refused''), [Get ''https://stats.espncricinfo.com/x''])
   \<and> Sleep 700 \<notin> set (snd (fetch_html
        \<lparr>session_get = (\<lambda>evs url. Inl (OtherError ''connection refused'')),
         soup_title = (\<lambda>html. None), html_tables = (\<lambda>html. Inr []), csv_error = (\<lambda>path. None),
      excel_error = (\<lambda>sheet df. None), xlsx_error = (\<lambda>path. None)\<rparr>
        ''https://stats.espncricinfo.com/x'' (700 :: nat) []))"
  by (simp add: fetch_html_def)

section \<open>Properties of the run orchestrator\<close>

lemma main_step_non_200:
  assumes "session_get env (events st) (make_url player_id spec) = Inr r"
    and "status_code r \<noteq> 200"
  shows "main_step env player_id out_dir sleep_s st spec
    = st\<lparr>events := events st @ [Get (make_url player_id spec), Sleep sleep_s],
          failures := failures st
            @ [(make_url player_id spec,
                ''HTTP '' @ str_int (status_code r) @ '' for '' @ make_url player_id spec
                @ [CHR 0x0A] @ ''First 300 chars:'' @ [CHR 0x0A] @ take 300 (resp_text r))]\<rparr>"
  using assms
  by (simp add: main_step_def Let_def fetch_html_response record_failure_def)

lemma main_step_table_free:
  assumes "session_get env (events st) (make_url player_id spec) = Inr r"
    and "status_code r = 200"
    and "html_tables env (strip_doctype (resp_text r)) = Inr []"
  shows "main_step env player_id out_dir sleep_s st spec
    = st\<lparr>events := events st @ [Get (make_url player_id spec), Sleep sleep_s],
          failures := failures st @ [(make_url player_id spec, ''No tables found'')]\<rparr>"
  using assms
  by (simp add: main_step_def Let_def fetch_html_response record_failure_def
      read_tables_from_html_no_tables)

lemma main_step_all_discarded:
  assumes "session_get env (events st) (make_url player_id spec) = Inr r"
    and "status_code r = 200"
    and "html_tables env (strip_doctype (resp_text r)) = Inr dfs" and "dfs \<noteq> []"
    and "\<forall>df \<in> set dfs. data (dropna_rows (dropna_cols df)) = []
           \<or> columns (dropna_rows (dropna_cols df)) = []"
  shows "main_step env player_id out_dir sleep_s st spec
    = st\<lparr>events := events st @ [Get (make_url player_id spec), Sleep sleep_s]\<rparr>"
proof -
  from assms(3-5) have "read_tables_from_html env (resp_text r) = Inr []"
    by (auto simp: read_tables_from_html_tables filter_empty_conv)
  with assms(1,2) show ?thesis
    by (simp add: main_step_def Let_def fetch_html_response)
qed

lemma main_step_transport:
  assumes "session_get env (events st) (make_url player_id spec) = Inl e"
  shows "main_step env player_id out_dir sleep_s st spec
    = st\<lparr>events := events st @ [Get (make_url player_id spec)],
          failures := failures st @ [(make_url player_id spec, str_exn e)]\<rparr>"
  using assms
  by (simp add: main_step_def Let_def fetch_html_transport record_failure_def)

lemma main_step_events:
  "events (main_step env player_id out_dir sleep_s st spec)
     = snd (fetch_html env (make_url player_id spec) sleep_s (events st))"
  by (simp add: main_step_def Let_def record_failure_def
      split: prod.splits sum.splits)

lemma main_loop_requested:
  "requested (events (main_loop env player_id out_dir sleep_s specs st))
     = requested (events st) @ map (make_url player_id) specs"
proof (induction specs arbitrary: st)
  case Nil
  show ?case by simp
next
  case (Cons spec specs)
  show ?case
    by (simp add: Cons.IH main_step_events fetch_html_requested)
qed

lemma main_requested:
  "requested (events (fst (main env player_id out_dir sleep_s)))
     = map (make_url player_id) build_default_specs"
proof -
  have "fst (main env player_id out_dir sleep_s)
      = main_loop env player_id out_dir sleep_s build_default_specs init_state"
    by (simp add: main_def Let_def split: sum.splits)
  moreover have "requested (events (init_state :: 'a run_state)) = []"
    by (simp add: init_state_def requested_def)
  ultimately show ?thesis
    by (simp add: main_loop_requested)
qed

text \<open>
  C2. In one turn of the orchestrator's loop, a response whose status is not 200
  appends exactly one record to \<open>failures\<close>, the URL of the spec with the HTTP
  diagnostic, and leaves the tables and the files as they were. A response with status
  200 whose tables are all left out by the extractor changes neither \<open>failures\<close> nor
  the tables nor the files: the turn ends with \<open>continue\<close>. A response with status 200
  in which the parser finds no table at all does not reach that \<open>continue\<close>: the
  extractor raises, and the handler appends the record of the URL with the message
  \<open>No tables found\<close>, although the comment at the \<open>continue\<close> wants such a page skipped.
  Whatever happens in the turns, the loop requests the URL of every spec of the list,
  in order: no failure stops the specs after it. A run of \<open>main\<close> is this loop over the
  enumerated specs. A request that fails before any response arrives is recorded like
  a response whose status is not 200, with the text of its exception.
\<close>

theorem main_loop_failures:
  "(session_get env (events st) (make_url player_id spec) = Inr r \<and> status_code r \<noteq> 200 \<longrightarrow>
      main_step env player_id out_dir sleep_s st spec
        = st\<lparr>events := events st @ [Get (make_url player_id spec), Sleep sleep_s],
              failures := failures st
                @ [(make_url player_id spec,
                    ''HTTP '' @ str_int (status_code r) @ '' for '' @ make_url player_id spec
                    @ [CHR 0x0A] @ ''First 300 chars:'' @ [CHR 0x0A] @ take 300 (resp_text r))]\<rparr>)
   \<and> (session_get env (events st) (make_url player_id spec) = Inr r \<and> status_code r = 200
        \<and> html_tables env (strip_doctype (resp_text r)) = Inr [] \<longrightarrow>
      main_step env player_id out_dir sleep_s st spec
        = st\<lparr>events := events st @ [Get (make_url player_id spec), Sleep sleep_s],
              failures := failures st @ [(make_url player_id spec, ''No tables found'')]\<rparr>)
   \<and> (session_get env (events st) (make_url player_id spec) = Inr r \<and> status_code r = 200
        \<and> html_tables env (strip_doctype (resp_text r)) = Inr dfs \<and> dfs \<noteq> []
        \<and> (\<forall>df \<in> set dfs. data (dropna_rows (dropna_cols df)) = []
              \<or> columns (dropna_rows (dropna_cols df)) = []) \<longrightarrow>
      main_step env player_id out_dir sleep_s st spec
        = st\<lparr>events := events st @ [Get (make_url player_id spec), Sleep sleep_s]\<rparr>)
   \<and> requested (events (main_loop env player_id out_dir sleep_s specs st))
       = requested (events st) @ map (make_url player_id) specs
   \<and> requested (events (fst (main env player_id out_dir sleep_s)))
       = map (make_url player_id) build_default_specs
   \<and> (session_get env (events st) (make_url player_id spec) = Inl e \<longrightarrow>
      main_step env player_id out_dir sleep_s st spec
        = st\<lparr>events := events st @ [Get (make_url player_id spec)],
              failures := failures st @ [(make_url player_id spec, str_exn e)]\<rparr>)"
  using main_step_non_200 [of env st player_id spec r out_dir sleep_s]
    main_step_table_free [of env st player_id spec r out_dir sleep_s]
    main_step_all_discarded [of env st player_id spec r dfs out_dir sleep_s]
    main_loop_requested [of env player_id out_dir sleep_s specs st]
    main_requested [of env player_id out_dir sleep_s]
    main_step_transport [of env st player_id spec e out_dir sleep_s]
  by blast

lemma make_url_class_1:
  "make_url 625371 (mk_spec ''batting'' 1 ''innings'')
     = ''https://stats.espncricinfo.com/ci/engine/player/625371.html?class=1;template=results;type=batting;view=innings''"
  "make_url 625371 (mk_spec ''batting'' 1 ''results'')
     = ''https://stats.espncricinfo.com/ci/engine/player/625371.html?class=1;template=results;type=batting;view=results''"
  "make_url 625371 (mk_spec ''bowling'' 1 ''innings'')
     = ''https://stats.espncricinfo.com/ci/engine/player/625371.html?class=1;template=results;type=bowling;view=innings''"
  by (simp_all add: make_url_spec_params spec_params_def mk_spec_def fmt_param_def BASE_def
      str_int_625371 str_int_digit)

lemma strip_doctype_pages:
  "strip_doctype ''<html></html>'' = ''<html></html>''"
  "strip_doctype ''<table><tr><td></td></tr></table>'' = ''<table><tr><td></td></tr></table>''"
  by code_simp+

theorem main_loop_failures_witness:
  "main_loop
     \<lparr>session_get = (\<lambda>evs url.
        if url = ''https://stats.espncricinfo.com/ci/engine/player/625371.html?class=1;template=results;type=batting;view=innings''
        then Inr \<lparr>status_code = 404, resp_text = ''Not Found''\<rparr>
        else if url = ''https://stats.espncricinfo.com/ci/engine/player/625371.html?class=1;template=results;type=batting;view=results''
        then Inr \<lparr>status_code = 200, resp_text = ''<html></html>''\<rparr>
        else Inr \<lparr>status_code = 200, resp_text = ''<table><tr><td></td></tr></table>''\<rparr>),
      soup_title = (\<lambda>html. None),
      html_tables = (\<lambda>html.
        if html = ''<table><tr><td></td></tr></table>''
        then Inr [\<lparr>columns = [LInt 0], data = [[NA]]\<rparr>]
        else Inr []),
      csv_error = (\<lambda>path. None),
      excel_error = (\<lambda>sheet df. None), xlsx_error = (\<lambda>path. None)\<rparr>
     625371 ''/out'' (700 :: nat)
     [mk_spec ''batting'' 1 ''innings'', mk_spec ''batting'' 1 ''results'',
      mk_spec ''bowling'' 1 ''innings'']
     init_state
   = \<lparr>all_tables = [],
      failures =
        [(''https://stats.espncricinfo.com/ci/engine/player/625371.html?class=1;template=results;type=batting;view=innings'',
          ''HTTP 404 for https://stats.espncricinfo.com/ci/engine/player/625371.html?class=1;template=results;type=batting;view=innings''
          @ [CHR 0x0A] @ ''First 300 chars:'' @ [CHR 0x0A] @ ''Not Found''),
         (''https://stats.espncricinfo.com/ci/engine/player/625371.html?class=1;template=results;type=batting;view=results'',
          ''No tables found'')],
      files = [],
      events =
        [Get ''https://stats.espncricinfo.com/ci/engine/player/625371.html?class=1;template=results;type=batting;view=innings'',
         Sleep 700,
         Get ''https://stats.espncricinfo.com/ci/engine/player/625371.html?class=1;template=results;type=batting;view=results'',
         Sleep 700,
         Get ''https://stats.espncricinfo.com/ci/engine/player/625371.html?class=1;template=results;type=bowling;view=innings'',
         Sleep 700]\<rparr>"
proof -
  let ?u1 = "''https://stats.espncricinfo.com/ci/engine/player/625371.html?class=1;template=results;type=batting;view=innings''"
  let ?u2 = "''https://stats.espncricinfo.com/ci/engine/player/625371.html?class=1;template=results;type=batting;view=results''"
  let ?u3 = "''https://stats.espncricinfo.com/ci/engine/player/625371.html?class=1;template=results;type=bowling;view=innings''"
  let ?r1 = "\<lparr>status_code = 404, resp_text = ''Not Found''\<rparr>"
  let ?r2 = "\<lparr>status_code = 200, resp_text = ''<html></html>''\<rparr>"
  let ?r3 = "\<lparr>status_code = 200, resp_text = ''<table><tr><td></td></tr></table>''\<rparr>"
  let ?T = "\<lparr>columns = [LInt 0], data = [[NA]]\<rparr>"
  define env :: "nat env" where "env =
    \<lparr>session_get = (\<lambda>evs url. if url = ?u1 then Inr ?r1 else if url = ?u2 then Inr ?r2 else Inr ?r3),
     soup_title = (\<lambda>html. None),
     html_tables = (\<lambda>html. if html = ''<table><tr><td></td></tr></table>'' then Inr [?T] else Inr []),
     csv_error = (\<lambda>path. None),
     excel_error = (\<lambda>sheet df. None), xlsx_error = (\<lambda>path. None)\<rparr>"
  let ?init = "init_state :: nat run_state"
  let ?s1 = "mk_spec ''batting'' 1 ''innings''"
  let ?s2 = "mk_spec ''batting'' 1 ''results''"
  let ?s3 = "mk_spec ''bowling'' 1 ''innings''"
  let ?m1 = "''HTTP 404 for '' @ ?u1 @ [CHR 0x0A] @ ''First 300 chars:'' @ [CHR 0x0A] @ ''Not Found''"
  define st1 :: "nat run_state" where "st1 =
    \<lparr>all_tables = [], failures = [(?u1, ?m1)], files = [], events = [Get ?u1, Sleep 700]\<rparr>"
  define st2 :: "nat run_state" where "st2 =
    \<lparr>all_tables = [], failures = [(?u1, ?m1), (?u2, ''No tables found'')], files = [],
     events = [Get ?u1, Sleep 700, Get ?u2, Sleep 700]\<rparr>"
  define st3 :: "nat run_state" where "st3 =
    \<lparr>all_tables = [], failures = [(?u1, ?m1), (?u2, ''No tables found'')], files = [],
     events = [Get ?u1, Sleep 700, Get ?u2, Sleep 700, Get ?u3, Sleep 700]\<rparr>"
  have code: "str_int 404 = ''404''"
    by (simp add: str_int_def str_nat.simps digit_char_values)
  note inst = main_loop_failures [where env = env and player_id = 625371
      and out_dir = "''/out''" and sleep_s = 700 and specs = "[]" and e = "OtherError []"]
  have get1: "session_get env (events ?init) (make_url 625371 ?s1) = Inr ?r1 \<and> status_code ?r1 \<noteq> 200"
    unfolding make_url_class_1 by (simp add: env_def)
  have "main_step env 625371 ''/out'' 700 ?init ?s1
      = ?init\<lparr>events := events ?init @ [Get (make_url 625371 ?s1), Sleep 700],
          failures := failures ?init
            @ [(make_url 625371 ?s1,
                ''HTTP '' @ str_int (status_code ?r1) @ '' for '' @ make_url 625371 ?s1
                @ [CHR 0x0A] @ ''First 300 chars:'' @ [CHR 0x0A] @ take 300 (resp_text ?r1))]\<rparr>"
    by (rule inst [where st = ?init and spec = ?s1 and r = ?r1 and dfs = "[]",
        THEN conjunct1, THEN mp, OF get1])
  then have step1: "main_step env 625371 ''/out'' 700 ?init ?s1 = st1"
    unfolding make_url_class_1 by (simp add: init_state_def st1_def code)
  have get2: "session_get env (events st1) (make_url 625371 ?s2) = Inr ?r2 \<and> status_code ?r2 = 200
      \<and> html_tables env (strip_doctype (resp_text ?r2)) = Inr []"
    unfolding make_url_class_1 by (simp add: env_def strip_doctype_pages del: strip_doctype.simps)
  have "main_step env 625371 ''/out'' 700 st1 ?s2
      = st1\<lparr>events := events st1 @ [Get (make_url 625371 ?s2), Sleep 700],
            failures := failures st1 @ [(make_url 625371 ?s2, ''No tables found'')]\<rparr>"
    by (rule inst [where st = st1 and spec = ?s2 and r = ?r2 and dfs = "[]",
        THEN conjunct2, THEN conjunct1, THEN mp, OF get2])
  then have step2: "main_step env 625371 ''/out'' 700 st1 ?s2 = st2"
    unfolding make_url_class_1 by (simp add: st1_def st2_def)
  have gone: "dropna_rows (dropna_cols ?T) = \<lparr>columns = [], data = []\<rparr>"
    by (simp add: dropna_rows_def dropna_cols_def select_def)
  have get3: "session_get env (events st2) (make_url 625371 ?s3) = Inr ?r3 \<and> status_code ?r3 = 200
      \<and> html_tables env (strip_doctype (resp_text ?r3)) = Inr [?T] \<and> [?T] \<noteq> []
      \<and> (\<forall>df \<in> set [?T]. data (dropna_rows (dropna_cols df)) = []
            \<or> columns (dropna_rows (dropna_cols df)) = [])"
    unfolding make_url_class_1
    by (simp add: env_def strip_doctype_pages gone del: strip_doctype.simps)
  have "main_step env 625371 ''/out'' 700 st2 ?s3
      = st2\<lparr>events := events st2 @ [Get (make_url 625371 ?s3), Sleep 700]\<rparr>"
    by (rule inst [where st = st2 and spec = ?s3 and r = ?r3 and dfs = "[?T]",
        THEN conjunct2, THEN conjunct2, THEN conjunct1, THEN mp, OF get3])
  then have step3: "main_step env 625371 ''/out'' 700 st2 ?s3 = st3"
    unfolding make_url_class_1 by (simp add: st2_def st3_def)
  have "main_loop env 625371 ''/out'' 700 [?s1, ?s2, ?s3] ?init = st3"
    by (simp add: step1 step2 step3)
  then show ?thesis
    unfolding env_def st3_def by simp
qed

section \<open>Properties of the table normalizer\<close>

lemma insert_meta_result:
  "insert_meta meta df = Inr df2 \<Longrightarrow>
     df2 = \<lparr>columns = rev (map (LStr \<circ> fst) meta) @ columns df,
            data = map (\<lambda>r. rev (map (VStr \<circ> snd) meta) @ r) (data df)\<rparr>"
proof (induction meta arbitrary: df)
  case Nil
  then show ?case by simp
next
  case (Cons p meta)
  obtain k v where p: "p = (k, v)"
    by (cases p)
  from Cons.prems have free: "LStr k \<notin> set (columns df)"
    by (auto simp: p df_insert0_def split: if_splits)
  let ?df1 = "\<lparr>columns = LStr k # columns df, data = map (\<lambda>r. VStr v # r) (data df)\<rparr>"
  from Cons.prems free have "insert_meta meta ?df1 = Inr df2"
    by (simp add: p df_insert0_def)
  then have "df2 = \<lparr>columns = rev (map (LStr \<circ> fst) meta) @ columns ?df1,
      data = map (\<lambda>r. rev (map (VStr \<circ> snd) meta) @ r) (data ?df1)\<rparr>"
    by (rule Cons.IH)
  then show ?case
    by (simp add: p comp_def)
qed

lemma insert_meta_succeeds:
  "distinct (map fst meta) \<Longrightarrow> \<forall>k \<in> set (map fst meta). LStr k \<notin> set (columns df)
     \<Longrightarrow> \<exists>df2. insert_meta meta df = Inr df2"
proof (induction meta arbitrary: df)
  case Nil
  show ?case by simp
next
  case (Cons p meta)
  obtain k v where p: "p = (k, v)"
    by (cases p)
  let ?df1 = "\<lparr>columns = LStr k # columns df, data = map (\<lambda>r. VStr v # r) (data df)\<rparr>"
  from Cons.prems have "distinct (map fst meta)"
    and "\<forall>k' \<in> set (map fst meta). LStr k' \<notin> set (columns ?df1)"
    by (auto simp: p)
  then have "\<exists>df2. insert_meta meta ?df1 = Inr df2"
    by (rule Cons.IH)
  with Cons.prems show ?case
    by (simp add: p df_insert0_def)
qed

lemma normalize_loop_result:
  "normalize_loop i dfs meta out = Inr res \<Longrightarrow>
     res = out @ map (\<lambda>k.
       \<lparr>columns = LStr ''_table_index'' # rev (map (LStr \<circ> fst) meta) @ columns (dfs ! k),
        data = map (\<lambda>r. VInt (int (i + k)) # rev (map (VStr \<circ> snd) meta) @ r) (data (dfs ! k))\<rparr>)
       [0..<length dfs]"
proof (induction dfs arbitrary: i out)
  case Nil
  then show ?case by simp
next
  case (Cons df dfs)
  from Cons.prems obtain df2 where m: "insert_meta meta df = Inr df2"
    by (cases "insert_meta meta df") auto
  from Cons.prems m obtain df3 where t: "df_insert0 (LStr ''_table_index'') (VInt (int i)) df2 = Inr df3"
    by (cases "df_insert0 (LStr ''_table_index'') (VInt (int i)) df2") auto
  from m have df2: "df2 = \<lparr>columns = rev (map (LStr \<circ> fst) meta) @ columns df,
      data = map (\<lambda>r. rev (map (VStr \<circ> snd) meta) @ r) (data df)\<rparr>"
    by (rule insert_meta_result)
  from t have df3: "df3 = \<lparr>columns = LStr ''_table_index'' # rev (map (LStr \<circ> fst) meta) @ columns df,
      data = map (\<lambda>r. VInt (int i) # rev (map (VStr \<circ> snd) meta) @ r) (data df)\<rparr>"
    unfolding df2 by (auto simp: df_insert0_def comp_def split: if_splits)
  from Cons.prems m t have "normalize_loop (Suc i) dfs meta (out @ [df3]) = Inr res"
    by simp
  then have "res = (out @ [df3]) @ map (\<lambda>k.
       \<lparr>columns = LStr ''_table_index'' # rev (map (LStr \<circ> fst) meta) @ columns (dfs ! k),
        data = map (\<lambda>r. VInt (int (Suc i + k)) # rev (map (VStr \<circ> snd) meta) @ r) (data (dfs ! k))\<rparr>)
       [0..<length dfs]"
    by (rule Cons.IH)
  then show ?case
    by (simp add: df3 upt_rec [of 0 "Suc (length dfs)"] map_Suc_upt [symmetric] del: upt_Suc)
qed

lemma normalize_loop_succeeds:
  assumes "distinct (map fst meta)" and "''_table_index'' \<notin> set (map fst meta)"
    and "\<forall>df \<in> set dfs. \<forall>k \<in> set (''_table_index'' # map fst meta). LStr k \<notin> set (columns df)"
  shows "\<exists>res. normalize_loop i dfs meta out = Inr res"
  using assms(3)
proof (induction dfs arbitrary: i out)
  case Nil
  show ?case by simp
next
  case (Cons df dfs)
  from Cons.prems have "\<forall>k \<in> set (map fst meta). LStr k \<notin> set (columns df)"
    by simp
  with assms(1) obtain df2 where m: "insert_meta meta df = Inr df2"
    using insert_meta_succeeds by blast
  then have df2: "df2 = \<lparr>columns = rev (map (LStr \<circ> fst) meta) @ columns df,
      data = map (\<lambda>r. rev (map (VStr \<circ> snd) meta) @ r) (data df)\<rparr>"
    by (rule insert_meta_result)
  from Cons.prems assms(2) have "LStr ''_table_index'' \<notin> set (columns df2)"
    unfolding df2 by auto
  then obtain df3 where t: "df_insert0 (LStr ''_table_index'') (VInt (int i)) df2 = Inr df3"
    by (simp add: df_insert0_def)
  from Cons.prems have "\<forall>df \<in> set dfs. \<forall>k \<in> set (''_table_index'' # map fst meta). LStr k \<notin> set (columns df)"
    by simp
  then have "\<exists>res. normalize_loop (Suc i) dfs meta (out @ [df3]) = Inr res"
    by (rule Cons.IH)
  with m t show ?case
    by simp
qed

text \<open>The dict \<open>meta\<close> that the orchestrator passes has five entries under five different keys.\<close>

lemma page_meta_keys:
  "map fst (page_meta url title spec) = [''_url'', ''_title'', ''_type'', ''_view'', ''_class'']"
  by (simp add: page_meta_def)

text \<open>
  C3. When \<open>normalize_tables\<close> returns for a list of tables and a metadata dict of five
  entries, it returns one table per input table, in the same order. Table number \<open>k\<close>
  (counted from 0) keeps the rows of its input and has six more columns: the column
  \<open>_table_index\<close>, which holds \<open>k + 1\<close> in every row, then the five metadata columns
  (in the reverse of the dict's order, each inserted in front of the ones before it),
  which hold the same five values in every row, then the original columns with the
  original cells. The ordinals start at 1 in every call. The function returns whenever
  no input table already has a column named \<open>_table_index\<close> or like a key of the dict
  (pandas refuses to insert a column twice).
\<close>

theorem normalize_tables_shape:
  "(normalize_tables dfs meta = Inr out \<and> length meta = 5 \<longrightarrow>
      length out = length dfs
      \<and> (\<forall>k < length dfs.
            length (data (out ! k)) = length (data (dfs ! k))
            \<and> length (columns (out ! k)) = length (columns (dfs ! k)) + 6
            \<and> columns (out ! k)
                = LStr ''_table_index'' # rev (map (LStr \<circ> fst) meta) @ columns (dfs ! k)
            \<and> (\<forall>r < length (data (dfs ! k)).
                  take 6 (data (out ! k) ! r) = VInt (int (k + 1)) # rev (map (VStr \<circ> snd) meta)
                  \<and> drop 6 (data (out ! k) ! r) = data (dfs ! k) ! r)))
   \<and> (distinct (map fst meta) \<and> ''_table_index'' \<notin> set (map fst meta)
        \<and> (\<forall>df \<in> set dfs. \<forall>k \<in> set (''_table_index'' # map fst meta). LStr k \<notin> set (columns df))
        \<longrightarrow> (\<exists>res. normalize_tables dfs meta = Inr res))"
proof (intro conjI impI)
  assume a: "normalize_tables dfs meta = Inr out \<and> length meta = 5"
  then have out: "out = map (\<lambda>k.
       \<lparr>columns = LStr ''_table_index'' # rev (map (LStr \<circ> fst) meta) @ columns (dfs ! k),
        data = map (\<lambda>r. VInt (int (1 + k)) # rev (map (VStr \<circ> snd) meta) @ r) (data (dfs ! k))\<rparr>)
       [0..<length dfs]"
    using normalize_loop_result [of 1 dfs meta "[]" out] by (simp add: normalize_tables_def)
  show "length out = length dfs"
    unfolding out by simp
  from a have five: "length (rev (map (VStr \<circ> snd) meta)) = 5"
    by simp
  show "\<forall>k < length dfs.
            length (data (out ! k)) = length (data (dfs ! k))
            \<and> length (columns (out ! k)) = length (columns (dfs ! k)) + 6
            \<and> columns (out ! k)
                = LStr ''_table_index'' # rev (map (LStr \<circ> fst) meta) @ columns (dfs ! k)
            \<and> (\<forall>r < length (data (dfs ! k)).
                  take 6 (data (out ! k) ! r) = VInt (int (k + 1)) # rev (map (VStr \<circ> snd) meta)
                  \<and> drop 6 (data (out ! k) ! r) = data (dfs ! k) ! r)"
  proof (intro allI impI)
    fix k
    assume k: "k < length dfs"
    then have outk: "out ! k = \<lparr>columns = LStr ''_table_index'' # rev (map (LStr \<circ> fst) meta) @ columns (dfs ! k),
        data = map (\<lambda>r. VInt (int (1 + k)) # rev (map (VStr \<circ> snd) meta) @ r) (data (dfs ! k))\<rparr>"
      unfolding out by simp
    have rows: "take 6 (data (out ! k) ! r) = VInt (int (k + 1)) # rev (map (VStr \<circ> snd) meta)
        \<and> drop 6 (data (out ! k) ! r) = data (dfs ! k) ! r"
      if "r < length (data (dfs ! k))" for r
      using that five unfolding outk by simp
    from a have "length (columns (out ! k)) = length (columns (dfs ! k)) + 6"
      unfolding outk by simp
    with rows show "length (data (out ! k)) = length (data (dfs ! k))
            \<and> length (columns (out ! k)) = length (columns (dfs ! k)) + 6
            \<and> columns (out ! k)
                = LStr ''_table_index'' # rev (map (LStr \<circ> fst) meta) @ columns (dfs ! k)
            \<and> (\<forall>r < length (data (dfs ! k)).
                  take 6 (data (out ! k) ! r) = VInt (int (k + 1)) # rev (map (VStr \<circ> snd) meta)
                  \<and> drop 6 (data (out ! k) ! r) = data (dfs ! k) ! r)"
      unfolding outk by simp
  qed
next
  assume "distinct (map fst meta) \<and> ''_table_index'' \<notin> set (map fst meta)
        \<and> (\<forall>df \<in> set dfs. \<forall>k \<in> set (''_table_index'' # map fst meta). LStr k \<notin> set (columns df))"
  then show "\<exists>res. normalize_tables dfs meta = Inr res"
    unfolding normalize_tables_def using normalize_loop_succeeds [of meta dfs 1 "[]"] by blast
qed

theorem normalize_tables_shape_witness:
  "normalize_tables
     [\<lparr>columns = [LStr ''Span'', LStr ''Mat''],
       data = [[VStr ''2015-2024'', VInt 12], [VStr ''2019-2024'', NA]]\<rparr>]
     [(''_url'', ''u''), (''_title'', ''t''), (''_type'', ''fielding''),
      (''_view'', ''dismissal_summary''), (''_class'', ''3'')]
   = Inr [\<lparr>columns = [LStr ''_table_index'', LStr ''_class'', LStr ''_view'', LStr ''_type'',
                      LStr ''_title'', LStr ''_url'', LStr ''Span'', LStr ''Mat''],
            data = [[VInt 1, VStr ''3'', VStr ''dismissal_summary'', VStr ''fielding'', VStr ''t'',
                     VStr ''u'', VStr ''2015-2024'', VInt 12],
                    [VInt 1, VStr ''3'', VStr ''dismissal_summary'', VStr ''fielding'', VStr ''t'',
                     VStr ''u'', VStr ''2019-2024'', NA]]\<rparr>]
   \<and> length (columns (
        \<lparr>columns = [LStr ''_table_index'', LStr ''_class'', LStr ''_view'', LStr ''_type'',
                      LStr ''_title'', LStr ''_url'', LStr ''Span'', LStr ''Mat''],
            data = [[VInt 1, VStr ''3'', VStr ''dismissal_summary'', VStr ''fielding'', VStr ''t'',
                     VStr ''u'', VStr ''2015-2024'', VInt 12],
                    [VInt 1, VStr ''3'', VStr ''dismissal_summary'', VStr ''fielding'', VStr ''t'',
                     VStr ''u'', VStr ''2019-2024'', NA]]\<rparr>))
       = length [LStr ''Span'', LStr ''Mat''] + 6"
proof -
  let ?D = "\<lparr>columns = [LStr ''Span'', LStr ''Mat''],
       data = [[VStr ''2015-2024'', VInt 12], [VStr ''2019-2024'', NA]]\<rparr>"
  let ?M = "[(''_url'', ''u''), (''_title'', ''t''), (''_type'', ''fielding''),
      (''_view'', ''dismissal_summary''), (''_class'', ''3'')]"
  let ?E = "\<lparr>columns = [LStr ''_table_index'', LStr ''_class'', LStr ''_view'', LStr ''_type'',
                      LStr ''_title'', LStr ''_url'', LStr ''Span'', LStr ''Mat''],
            data = [[VInt 1, VStr ''3'', VStr ''dismissal_summary'', VStr ''fielding'', VStr ''t'',
                     VStr ''u'', VStr ''2015-2024'', VInt 12],
                    [VInt 1, VStr ''3'', VStr ''dismissal_summary'', VStr ''fielding'', VStr ''t'',
                     VStr ''u'', VStr ''2019-2024'', NA]]\<rparr>"
  have run: "normalize_tables [?D] ?M = Inr [?E] \<and> length ?M = 5"
    by (simp add: normalize_tables_def df_insert0_def)
  have "\<forall>k < length [?D]. length (columns ([?E] ! k)) = length (columns ([?D] ! k)) + 6"
    using normalize_tables_shape [of "[?D]" ?M "[?E]", THEN conjunct1, THEN mp, OF run]
    by blast
  then have "length (columns ([?E] ! 0)) = length (columns ([?D] ! 0)) + 6"
    by (simp only: list.size One_nat_def lessI)
  with run show ?thesis
    by simp
qed

section \<open>Properties of the query enumerator\<close>

lemma find_snoc:
  "List.find P (xs @ [x])
     = (case List.find P xs of Some y \<Rightarrow> Some y | None \<Rightarrow> if P x then Some x else None)"
  by (induction xs) simp_all

lemma dedup_loop_suffix:
  "\<exists>ys. dedup_loop xs seen uniq = uniq @ ys \<and> subseq ys xs"
proof (induction xs arbitrary: seen uniq)
  case Nil
  show ?case by simp
next
  case (Cons sp sps)
  show ?case
  proof (cases "spec_key sp \<in> seen")
    case True
    from Cons.IH [of seen uniq] obtain ys
      where "dedup_loop sps seen uniq = uniq @ ys" and "subseq ys sps"
      by blast
    with True show ?thesis
      by (auto simp: Let_def)
  next
    case False
    from Cons.IH [of "insert (spec_key sp) seen" "uniq @ [sp]"] obtain ys
      where eq: "dedup_loop sps (insert (spec_key sp) seen) (uniq @ [sp]) = (uniq @ [sp]) @ ys"
        and sub: "subseq ys sps"
      by blast
    from sub have "subseq (sp # ys) (sp # sps)"
      by simp
    with False eq show ?thesis
      by (intro exI [of _ "sp # ys"]) (simp add: Let_def)
  qed
qed

lemma dedup_loop_distinct:
  "distinct (map spec_key uniq) \<Longrightarrow> spec_key ` set uniq \<subseteq> seen
     \<Longrightarrow> distinct (map spec_key (dedup_loop xs seen uniq))"
proof (induction xs arbitrary: seen uniq)
  case Nil
  then show ?case by simp
next
  case (Cons sp sps)
  show ?case
  proof (cases "spec_key sp \<in> seen")
    case True
    with Cons.IH [OF Cons.prems] show ?thesis
      by (simp add: Let_def)
  next
    case False
    with Cons.prems have "distinct (map spec_key (uniq @ [sp]))"
      and "spec_key ` set (uniq @ [sp]) \<subseteq> insert (spec_key sp) seen"
      by auto
    then have "distinct (map spec_key (dedup_loop sps (insert (spec_key sp) seen) (uniq @ [sp])))"
      by (rule Cons.IH)
    with False show ?thesis
      by (simp add: Let_def)
  qed
qed

lemma dedup_loop_find:
  "List.find (\<lambda>sp. spec_key sp = k) (dedup_loop xs seen uniq)
     = (case List.find (\<lambda>sp. spec_key sp = k) uniq of
          Some s \<Rightarrow> Some s
        | None \<Rightarrow> if k \<in> seen then None else List.find (\<lambda>sp. spec_key sp = k) xs)"
proof (induction xs arbitrary: seen uniq)
  case Nil
  show ?case by (simp split: option.splits)
next
  case (Cons sp sps)
  show ?case
  proof (cases "spec_key sp \<in> seen")
    case True
    then show ?thesis
      by (auto simp: Let_def Cons.IH split: option.splits)
  next
    case False
    then show ?thesis
      by (auto simp: Let_def Cons.IH find_snoc split: option.splits)
  qed
qed

lemma dedup_loop_no_duplicates:
  "distinct (map spec_key xs) \<Longrightarrow> spec_key ` set xs \<inter> seen = {}
     \<Longrightarrow> dedup_loop xs seen uniq = uniq @ xs"
proof (induction xs arbitrary: seen uniq)
  case Nil
  show ?case by simp
next
  case (Cons sp sps)
  from Cons.prems have new: "spec_key sp \<notin> seen"
    by auto
  from Cons.prems have "distinct (map spec_key sps)"
    and "spec_key ` set sps \<inter> insert (spec_key sp) seen = {}"
    by auto
  then have "dedup_loop sps (insert (spec_key sp) seen) (uniq @ [sp]) = (uniq @ [sp]) @ sps"
    by (rule Cons.IH)
  with new show ?case
    by (simp add: Let_def)
qed

lemma candidate_keys_distinct: "distinct (map spec_key candidate_specs)"
  by (simp add: candidate_specs_def classes_to_try_def extra_views_def mk_spec_def spec_key_def)

lemma build_default_specs_candidates: "build_default_specs = candidate_specs"
  unfolding build_default_specs_def
  using dedup_loop_no_duplicates [OF candidate_keys_distinct, of "{}" "[]"] by simp

text \<open>
  C5. No two specs of the list that \<open>build_default_specs\<close> returns have the same key
  (type, view, cls, sorted extra items). The list is a subsequence of the list that the
  two loops produce, so the order of first appearance is kept, and for every key the
  spec it holds under that key is the first one the loops produced under it. The
  function takes no argument and reads no state: in the model it is a constant, the
  same list at every call; here the loops produce no duplicate, so it is their list of
  90 specs.
\<close>

theorem build_default_specs_unique:
  "distinct (map spec_key build_default_specs)
   \<and> subseq build_default_specs candidate_specs
   \<and> (\<forall>k. List.find (\<lambda>sp. spec_key sp = k) build_default_specs
            = List.find (\<lambda>sp. spec_key sp = k) candidate_specs)
   \<and> build_default_specs = candidate_specs
   \<and> length build_default_specs = 90"
proof -
  have d: "distinct (map spec_key build_default_specs)"
    unfolding build_default_specs_def by (rule dedup_loop_distinct) simp_all
  from dedup_loop_suffix [of candidate_specs "{}" "[]"]
  have s: "subseq build_default_specs candidate_specs"
    unfolding build_default_specs_def by auto
  have f: "\<forall>k. List.find (\<lambda>sp. spec_key sp = k) build_default_specs
            = List.find (\<lambda>sp. spec_key sp = k) candidate_specs"
    unfolding build_default_specs_def by (simp add: dedup_loop_find)
  have "length candidate_specs = 90"
    by (simp add: candidate_specs_def classes_to_try_def extra_views_def)
  with d s f build_default_specs_candidates show ?thesis
    by simp
qed

theorem build_default_specs_unique_witness:
  "List.find (\<lambda>sp. spec_key sp = (''fielding'', Some ''dismissal_summary'', Some 3, []))
     build_default_specs
   = Some (mk_spec ''fielding'' 3 ''dismissal_summary'')"
proof -
  have "List.find (\<lambda>sp. spec_key sp = (''fielding'', Some ''dismissal_summary'', Some 3, []))
      candidate_specs = Some (mk_spec ''fielding'' 3 ''dismissal_summary'')"
    by (simp add: candidate_specs_def classes_to_try_def extra_views_def mk_spec_def spec_key_def)
  with build_default_specs_unique show ?thesis
    by simp
qed

lemma page_key_mk_spec:
  "v \<noteq> [] \<Longrightarrow> c \<noteq> 0 \<Longrightarrow>
     page_key (mk_spec t c v) = ''type='' @ t @ ''__view='' @ v @ ''__class='' @ str_int c"
  by (simp add: page_key_def mk_spec_def)

lemma candidate_specs_page_keys:
  "\<forall>sp \<in> set candidate_specs.
     (\<exists>v c. view sp = Some v \<and> v \<noteq> [] \<and> cls sp = Some c \<and> 1 \<le> c \<and> c \<le> 6
        \<and> length (str_int c) = 1
        \<and> page_key sp = ''type='' @ type sp @ ''__view='' @ v @ ''__class='' @ str_int c)
     \<and> extra_params sp = None
     \<and> \<not> sublist ''none'' (page_key sp)"
  by (simp add: candidate_specs_def classes_to_try_def extra_views_def mk_spec_def page_key_def
      str_int_digit sublist_Cons_right)

text \<open>
  C10. Every spec of the list that \<open>build_default_specs\<close> returns has a sub-view (a
  non-empty string), a format class between 1 and 6 and no extra parameters. Hence
  its page key is \<open>type=<category>__view=<sub_view>__class=<digit>\<close>, with the sub-view
  and the one-digit class written out, and the text \<open>none\<close>, which the key expression
  puts in place of a missing or empty view and of a missing or zero class, occurs
  nowhere in it.
\<close>

theorem build_default_specs_page_keys:
  "\<forall>sp \<in> set build_default_specs.
     (\<exists>v c. view sp = Some v \<and> v \<noteq> [] \<and> cls sp = Some c \<and> 1 \<le> c \<and> c \<le> 6
        \<and> length (str_int c) = 1
        \<and> page_key sp = ''type='' @ type sp @ ''__view='' @ v @ ''__class='' @ str_int c)
     \<and> extra_params sp = None
     \<and> \<not> sublist ''none'' (page_key sp)"
  unfolding build_default_specs_candidates by (rule candidate_specs_page_keys)

lemma page_key_placeholders:
  "page_key \<lparr>type = t, view = None, cls = None, extra_params = e\<rparr>
     = ''type='' @ t @ ''__view=none__class=none''"
  "page_key \<lparr>type = t, view = Some [], cls = Some 0, extra_params = e\<rparr>
     = ''type='' @ t @ ''__view=none__class=none''"
  by (simp_all add: page_key_def)

theorem build_default_specs_page_keys_witness:
  "mk_spec ''fielding'' 3 ''dismissal_summary'' \<in> set build_default_specs
   \<and> page_key (mk_spec ''fielding'' 3 ''dismissal_summary'')
       = ''type=fielding__view=dismissal_summary__class=3''
   \<and> extra_params (mk_spec ''fielding'' 3 ''dismissal_summary'') = None
   \<and> \<not> sublist ''none'' (page_key (mk_spec ''fielding'' 3 ''dismissal_summary''))"
proof -
  have mem: "mk_spec ''fielding'' 3 ''dismissal_summary'' \<in> set build_default_specs"
    unfolding build_default_specs_candidates
    by (simp add: candidate_specs_def classes_to_try_def extra_views_def mk_spec_def)
  have key: "page_key (mk_spec ''fielding'' 3 ''dismissal_summary'')
       = ''type=fielding__view=dismissal_summary__class=3''"
    by (simp add: page_key_mk_spec str_int_digit)
  from build_default_specs_page_keys mem
  have "extra_params (mk_spec ''fielding'' 3 ''dismissal_summary'') = None
      \<and> \<not> sublist ''none'' (page_key (mk_spec ''fielding'' 3 ''dismissal_summary''))"
    by blast
  with mem key show ?thesis
    by blast
qed


end
